theory Spec2Isabelle
  imports Main "HOL-Library.Multiset" "HOL-Library.Sublist" "HOL-Library.AList"
begin

section \<open>Strings and Python values\<close>

text \<open>
  Python strings are modelled as \<open>string\<close>; the program only builds ASCII names, so a
  \<open>char\<close> stands for one code point. \<open>''sep''.join(xs)\<close> is \<open>join\<close>.
\<close>

fun join :: "string \<Rightarrow> string list \<Rightarrow> string" where
  "join sep [] = []"
| "join sep [x] = x"
| "join sep (x # y # ys) = x @ sep @ join sep (y # ys)"

definition digit_char :: "nat \<Rightarrow> char" where
  "digit_char d = ''0123456789'' ! d"

text \<open>\<open>str(n)\<close> of a non-negative integer: its decimal digits, most significant first.\<close>

function str_nat :: "nat \<Rightarrow> string" where
  "str_nat n = (if n < 10 then [digit_char n] else str_nat (n div 10) @ [digit_char (n mod 10)])"
  by pat_completeness auto
termination
  by (relation "measure id") auto

declare str_nat.simps [simp del]

definition str_int :: "int \<Rightarrow> string" where
  "str_int i = (if i < 0 then CHR ''-'' # str_nat (nat (- i)) else str_nat (nat i))"

text \<open>
  The values that \<open>Version.to_tuple()\<close> holds: integers, strings and \<open>None\<close>, with
  Python's \<open>str()\<close> and truth value.
\<close>

datatype pyval = PInt int | PStr string | PNone

fun py_str :: "pyval \<Rightarrow> string" where
  "py_str (PInt i) = str_int i"
| "py_str (PStr s) = s"
| "py_str PNone = ''None''"

fun truthy :: "pyval \<Rightarrow> bool" where
  "truthy (PInt i) = (i \<noteq> 0)"
| "truthy (PStr s) = (s \<noteq> [])"
| "truthy PNone = False"

subsection \<open>normalize\<close>

text \<open>
  \<open>re.sub(r"[-_.]+", "_", str(arg))\<close>: scanning from the left, a character of the class
  starts a match that greedily takes the whole run of class characters and is replaced by
  one underscore; any other character is copied.
\<close>

definition is_sep :: "char \<Rightarrow> bool" where
  "is_sep c \<longleftrightarrow> c = CHR ''-'' \<or> c = CHR ''_'' \<or> c = CHR ''.''"

function re_sub_seps :: "string \<Rightarrow> string" where
  "re_sub_seps [] = []"
| "re_sub_seps (c # cs) =
     (if is_sep c then CHR ''_'' # re_sub_seps (dropWhile is_sep cs)
      else c # re_sub_seps cs)"
  by pat_completeness auto
termination
  by (relation "measure length") (auto simp: less_Suc_eq_le length_dropWhile_le)

definition normalize :: "pyval \<Rightarrow> string" where
  "normalize arg = re_sub_seps (py_str arg)"

text \<open>
  The spec's wording of the same function: cut the string into its maximal runs of
  separator characters and of other characters, and replace each separator run by one
  underscore.
\<close>

definition same_class :: "char \<Rightarrow> char \<Rightarrow> bool" where
  "same_class c d \<longleftrightarrow> is_sep d = is_sep c"

function runs :: "string \<Rightarrow> string list" where
  "runs [] = []"
| "runs (c # cs) = (c # takeWhile (same_class c) cs) # runs (dropWhile (same_class c) cs)"
  by pat_completeness auto
termination
  by (relation "measure length") (auto simp: less_Suc_eq_le length_dropWhile_le)

definition collapse_runs :: "string \<Rightarrow> string" where
  "collapse_runs s = concat (map (\<lambda>r. if is_sep (hd r) then ''_'' else r) (runs s))"

section \<open>The version resolver\<close>

text \<open>The fields of \<open>semver.Version\<close>.\<close>

record version =
  major :: int
  minor :: int
  patch :: int
  prerelease :: "string option"
  build :: "string option"

definition is_digit :: "char \<Rightarrow> bool" where
  "is_digit c \<longleftrightarrow> c \<in> set ''0123456789''"

definition is_alpha :: "char \<Rightarrow> bool" where
  "is_alpha c \<longleftrightarrow> c \<in> set ''abcdefghijklmnopqrstuvwxyzABCDEFGHIJKLMNOPQRSTUVWXYZ''"

definition digit_val :: "char \<Rightarrow> nat" where
  "digit_val c = of_char c - 48"

definition int_of_digits :: "string \<Rightarrow> int" where
  "int_of_digits s = int (foldl (\<lambda>a c. 10 * a + digit_val c) 0 s)"

text \<open>\<open>s.split(c)\<close> for a one-character separator: never an empty list.\<close>

fun split_on :: "char \<Rightarrow> string \<Rightarrow> string list" where
  "split_on c [] = [[]]"
| "split_on c (x # xs) =
     (if x = c then [] # split_on c xs
      else (case split_on c xs of [] \<Rightarrow> [[x]] | w # ws \<Rightarrow> (x # w) # ws))"

text \<open>Cut at the first occurrence of a character, if there is one.\<close>

definition cut_first :: "char \<Rightarrow> string \<Rightarrow> string \<times> string option" where
  "cut_first c s =
     (if c \<in> set s then (takeWhile (\<lambda>x. x \<noteq> c) s, Some (tl (dropWhile (\<lambda>x. x \<noteq> c) s)))
      else (s, None))"

text \<open>\<open>0|[1-9]\d*\<close>\<close>

definition is_numeric_id :: "string \<Rightarrow> bool" where
  "is_numeric_id s \<longleftrightarrow> s \<noteq> [] \<and> list_all is_digit s \<and> (s = ''0'' \<or> hd s \<noteq> CHR ''0'')"

text \<open>\<open>[0-9a-zA-Z-]+\<close>\<close>

definition is_build_id :: "string \<Rightarrow> bool" where
  "is_build_id s \<longleftrightarrow> s \<noteq> [] \<and> list_all (\<lambda>c. is_digit c \<or> is_alpha c \<or> c = CHR ''-'') s"

text \<open>\<open>0|[1-9]\d*|\d*[a-zA-Z-][0-9a-zA-Z-]*\<close>\<close>

definition is_prerelease_id :: "string \<Rightarrow> bool" where
  "is_prerelease_id s \<longleftrightarrow>
     is_build_id s \<and> (if list_all is_digit s then is_numeric_id s else True)"

text \<open>
  Modelled from the spec: \<open>semver.Version.parse\<close> belongs to the external \<open>semver\<close>
  package, which is not part of the repository. The spec says that the version string is
  parsed into major, minor and patch plus optional pre-release and build tags and that a
  string violating the semantic-versioning grammar is a parse error (\<open>None\<close> here). The
  grammar is the one of the package's regular expression:
  \<open>major.minor.patch\<close>, then an optional \<open>-prerelease\<close>, then an optional
  \<open>+build\<close>, each a dot-separated list of identifiers, and nothing before or after them.
\<close>

definition parse :: "string \<Rightarrow> version option" where
  "parse s =
     (let (front, bld) = cut_first CHR ''+'' s;
          (core, pre) = cut_first CHR ''-'' front
      in (case split_on CHR ''.'' core of
            [ma, mi, pa] \<Rightarrow>
              if is_numeric_id ma \<and> is_numeric_id mi \<and> is_numeric_id pa
                 \<and> (case pre of None \<Rightarrow> True
                     | Some p \<Rightarrow> list_all is_prerelease_id (split_on CHR ''.'' p))
                 \<and> (case bld of None \<Rightarrow> True
                     | Some b \<Rightarrow> list_all is_build_id (split_on CHR ''.'' b))
              then Some \<lparr>major = int_of_digits ma, minor = int_of_digits mi,
                         patch = int_of_digits pa, prerelease = pre, build = bld\<rparr>
              else None
          | _ \<Rightarrow> None))"

text \<open>\<open>Version.to_tuple()\<close>, \<open>Version.finalize_version()\<close> and \<open>str(Version)\<close>.\<close>

definition opt_val :: "string option \<Rightarrow> pyval" where
  "opt_val x = (case x of None \<Rightarrow> PNone | Some s \<Rightarrow> PStr s)"

definition to_tuple :: "version \<Rightarrow> pyval list" where
  "to_tuple v = [PInt (major v), PInt (minor v), PInt (patch v),
                 opt_val (prerelease v), opt_val (build v)]"

definition finalize_version :: "version \<Rightarrow> version" where
  "finalize_version v =
     \<lparr>major = major v, minor = minor v, patch = patch v, prerelease = None, build = None\<rparr>"

definition version_str :: "version \<Rightarrow> string" where
  "version_str v =
     (let base = str_int (major v) @ ''.'' @ str_int (minor v) @ ''.'' @ str_int (patch v);
          with_pre = (if truthy (opt_val (prerelease v))
                      then base @ ''-'' @ the (prerelease v) else base)
      in if truthy (opt_val (build v)) then with_pre @ ''+'' @ the (build v) else with_pre)"

text \<open>
  The module-level constants derived from the tag. \<open>os.getenv("GIT_TAG", "1.5.7-rc0")\<close>
  takes the variable's value as an argument, \<open>None\<close> when it is unset.
\<close>

definition GIT_TAG :: "string option \<Rightarrow> string" where
  "GIT_TAG var = (case var of None \<Rightarrow> ''1.5.7-rc0'' | Some t \<Rightarrow> t)"

definition PACKAGE_VERSION :: "version \<Rightarrow> string" where
  "PACKAGE_VERSION v = join ''.'' (map normalize (filter truthy (to_tuple v)))"

definition TERRAFORM_VERSION :: "version \<Rightarrow> string" where
  "TERRAFORM_VERSION v = version_str (finalize_version v)"

text \<open>
  The spec's wording of the package version: all present components of the version, each
  normalized, joined with a dot.
\<close>

definition present_components :: "version \<Rightarrow> pyval list" where
  "present_components v =
     [PInt (major v), PInt (minor v), PInt (patch v)]
     @ (case prerelease v of None \<Rightarrow> [] | Some p \<Rightarrow> [PStr p])
     @ (case build v of None \<Rightarrow> [] | Some b \<Rightarrow> [PStr b])"

definition spec_package_version :: "version \<Rightarrow> string" where
  "spec_package_version v = join ''.'' (map normalize (present_components v))"

section \<open>The content digest\<close>

text \<open>
  A file's bytes are a \<open>string\<close>: one \<open>char\<close> is one byte. \<open>file.read(size)\<close> on the
  rest of an open file returns its first \<open>size\<close> bytes; \<open>read_chunks\<close> yields such
  pieces until one is empty.
\<close>

function read_chunks :: "nat \<Rightarrow> string \<Rightarrow> string list" where
  "read_chunks sz data =
     (let chunk = take sz data
      in if chunk = [] then [] else chunk # read_chunks sz (drop sz data))"
  by pat_completeness auto
termination
  by (relation "measure (\<lambda>(sz, data). length data)") auto

declare read_chunks.simps [simp del]

text \<open>
  \<open>base64.urlsafe_b64encode\<close>: the standard encoding with \<open>=\<close> padding, then
  \<open>+\<close> and \<open>/\<close> translated to \<open>-\<close> and \<open>_\<close>.
\<close>

definition b64_alphabet :: string where
  "b64_alphabet = ''ABCDEFGHIJKLMNOPQRSTUVWXYZabcdefghijklmnopqrstuvwxyz0123456789+/''"

definition b64_char :: "nat \<Rightarrow> char" where
  "b64_char i = b64_alphabet ! i"

definition byte :: "char \<Rightarrow> nat" where
  "byte c = of_char c"

fun b64encode :: "string \<Rightarrow> string" where
  "b64encode (a # b # c # rest) =
     [b64_char (byte a div 4), b64_char (byte a mod 4 * 16 + byte b div 16),
      b64_char (byte b mod 16 * 4 + byte c div 64), b64_char (byte c mod 64)] @ b64encode rest"
| "b64encode [a, b] =
     [b64_char (byte a div 4), b64_char (byte a mod 4 * 16 + byte b div 16),
      b64_char (byte b mod 16 * 4), CHR ''='']"
| "b64encode [a] = [b64_char (byte a div 4), b64_char (byte a mod 4 * 16), CHR ''='', CHR ''='']"
| "b64encode [] = []"

definition urlsafe_translate :: "char \<Rightarrow> char" where
  "urlsafe_translate c = (if c = CHR ''+'' then CHR ''-'' else if c = CHR ''/'' then CHR ''_'' else c)"

definition urlsafe_b64encode :: "string \<Rightarrow> string" where
  "urlsafe_b64encode s = map urlsafe_translate (b64encode s)"

text \<open>\<open>s.rstrip("=")\<close>\<close>

definition rstrip_eq :: "string \<Rightarrow> string" where
  "rstrip_eq s = rev (dropWhile (\<lambda>c. c = CHR ''='') (rev s))"

text \<open>
  \<open>hashlib.sha256\<close> is outside the repository: the hash function is the parameter
  \<open>H\<close>, from the bytes fed to the digest. The hash object holds the bytes fed so far, and
  \<open>h.update(block)\<close> appends to them.
\<close>

record hasher =
  fed :: string

definition hash_new :: hasher where
  "hash_new = \<lparr>fed = []\<rparr>"

definition hash_update :: "hasher \<Rightarrow> string \<Rightarrow> hasher" where
  "hash_update h block = h\<lparr>fed := fed h @ block\<rparr>"

definition hash_digest :: "(string \<Rightarrow> string) \<Rightarrow> hasher \<Rightarrow> string" where
  "hash_digest H h = H (fed h)"

text \<open>The loop of \<open>rehash\<close> over the blocks, on the pair of the hash object and the length.\<close>

fun rehash_loop :: "string list \<Rightarrow> hasher \<times> nat \<Rightarrow> hasher \<times> nat" where
  "rehash_loop [] (h, len) = (h, len)"
| "rehash_loop (block # blocks) (h, len) =
     rehash_loop blocks (hash_update h block, len + length block)"

definition rehash_bytes :: "(string \<Rightarrow> string) \<Rightarrow> nat \<Rightarrow> string \<Rightarrow> string \<times> string" where
  "rehash_bytes H blocksize data =
     (let (h, len) = rehash_loop (read_chunks blocksize data) (hash_new, 0);
          digest = ''sha256='' @ rstrip_eq (urlsafe_b64encode (hash_digest H h))
      in (digest, str_nat len))"

text \<open>The spec's wording of the digest text: URL-safe base64 without padding.\<close>

definition b64url_alphabet :: string where
  "b64url_alphabet = ''ABCDEFGHIJKLMNOPQRSTUVWXYZabcdefghijklmnopqrstuvwxyz0123456789-_''"

definition b64url_char :: "nat \<Rightarrow> char" where
  "b64url_char i = b64url_alphabet ! i"

fun b64url_unpadded :: "string \<Rightarrow> string" where
  "b64url_unpadded (a # b # c # rest) =
     [b64url_char (byte a div 4), b64url_char (byte a mod 4 * 16 + byte b div 16),
      b64url_char (byte b mod 16 * 4 + byte c div 64), b64url_char (byte c mod 64)]
     @ b64url_unpadded rest"
| "b64url_unpadded [a, b] =
     [b64url_char (byte a div 4), b64url_char (byte a mod 4 * 16 + byte b div 16),
      b64url_char (byte b mod 16 * 4)]"
| "b64url_unpadded [a] = [b64url_char (byte a div 4), b64url_char (byte a mod 4 * 16)]"
| "b64url_unpadded [] = []"

text \<open>
  \<open>rehash(path)\<close> opens the file and hashes its bytes in blocks of \<open>1 << 20\<close>; what it
  returns depends on the bytes alone, whatever the file's name and permission bits.
\<close>

definition default_blocksize :: nat where
  "default_blocksize = 2 ^ 20"

section \<open>The metadata builder\<close>

text \<open>
  A header value of the dictionary given to \<open>make_message\<close> is a string or a list of
  strings. The message keeps its header lines in the order they were set.
\<close>

datatype header_value = Single string | Multi "string list"

record message =
  header_lines :: "(string \<times> string) list"
  payload :: "string option"

fun add_headers :: "(string \<times> header_value) list \<Rightarrow> (string \<times> string) list \<Rightarrow> (string \<times> string) list" where
  "add_headers [] msg = msg"
| "add_headers ((name, Multi parts) # rest) msg = add_headers rest (msg @ map (Pair name) parts)"
| "add_headers ((name, Single v) # rest) msg = add_headers rest (msg @ [(name, v)])"

definition make_message :: "(string \<times> header_value) list \<Rightarrow> string option \<Rightarrow> message" where
  "make_message hs body =
     \<lparr>header_lines = add_headers hs [],
      payload = (case body of None \<Rightarrow> None | Some b \<Rightarrow> if b = [] then None else Some b)\<rparr>"

section \<open>The build workspace\<close>

text \<open>
  A path is the list of its components below the directory the script is started in (the
  empty path is that directory, which exists). A file has its bytes and its permission
  bits. The file system lists every path once.
\<close>

type_synonym path = "string list"

datatype node = File string nat | Dir

type_synonym filesystem = "(path \<times> node) list"

definition lookup :: "filesystem \<Rightarrow> path \<Rightarrow> node option" where
  "lookup files p = map_of files p"

definition is_dir :: "filesystem \<Rightarrow> path \<Rightarrow> bool" where
  "is_dir files p \<longleftrightarrow> p = [] \<or> lookup files p = Some Dir"

definition is_file :: "filesystem \<Rightarrow> path \<Rightarrow> bool" where
  "is_file files p \<longleftrightarrow> (case lookup files p of Some (File c m) \<Rightarrow> True | _ \<Rightarrow> False)"

definition path_exists :: "filesystem \<Rightarrow> path \<Rightarrow> bool" where
  "path_exists files p \<longleftrightarrow> p = [] \<or> lookup files p \<noteq> None"

definition read_bytes :: "filesystem \<Rightarrow> path \<Rightarrow> string option" where
  "read_bytes files p = (case lookup files p of Some (File c m) \<Rightarrow> Some c | _ \<Rightarrow> None)"

text \<open>
  The errors of the spec's taxonomy, and the error of reading a file that is not text;
  each is an uncaught Python exception.
\<close>

datatype error =
    ParseError
  | DownloadError string
  | VerificationError
  | IntegrityError
  | FilesystemError path
  | DecodeError path

text \<open>
  Every call that touches the world outside the interpreter is recorded, with whether it
  succeeded: the trace of a run is the list of these events in the order they happened.
\<close>

datatype action =
    ReadText path
  | Mkdir path
  | Wget string path
  | Gpg path path path
  | Shasum path
  | Unpack path path
  | Copy path path
  | Chmod path nat
  | WriteText path string
  | Rehash path
  | ZipWrite path "(string \<times> string) list"

type_synonym event = "action \<times> bool"

record state =
  files :: filesystem
  trace :: "event list"

text \<open>
  A step either raises, leaving the state it reached, or returns a value and a state.
  Nothing in the script catches an exception, so \<open>bind\<close> passes a raised error on.
\<close>

type_synonym 'a prog = "state \<Rightarrow> error \<times> state + 'a \<times> state"

definition return_prog :: "'a \<Rightarrow> 'a prog" where
  "return_prog x s = Inr (x, s)"

definition bind_prog :: "'a prog \<Rightarrow> ('a \<Rightarrow> 'b prog) \<Rightarrow> 'b prog" where
  "bind_prog m f s = (case m s of Inl e \<Rightarrow> Inl e | Inr (x, s') \<Rightarrow> f x s')"

definition get_files :: "filesystem prog" where
  "get_files s = Inr (files s, s)"

text \<open>
  One call on the file system: it returns a result or an error, and the file system it
  left behind in either case.
\<close>

definition effect :: "action \<Rightarrow> (filesystem \<Rightarrow> (error + 'a) \<times> filesystem) \<Rightarrow> 'a prog" where
  "effect a f s =
     (case f (files s) of
        (Inl e, files') \<Rightarrow> Inl (e, \<lparr>files = files', trace = trace s @ [(a, False)]\<rparr>)
      | (Inr x, files') \<Rightarrow> Inr (x, \<lparr>files = files', trace = trace s @ [(a, True)]\<rparr>))"

fun for_each :: "('a \<Rightarrow> unit prog) \<Rightarrow> 'a list \<Rightarrow> unit prog" where
  "for_each body [] = return_prog ()"
| "for_each body (x # xs) = bind_prog (body x) (\<lambda>_. for_each body xs)"

subsection \<open>File operations\<close>

text \<open>
  \<open>Path.read_text()\<close> opens the file in text mode: the bytes are decoded, which raises
  on bytes that are not text of the encoding, and every \<open>CR LF\<close> and every lone \<open>CR\<close>
  of the text is read as \<open>LF\<close>. The decoder is an argument.
\<close>

fun universal_newlines :: "string \<Rightarrow> string" where
  "universal_newlines [] = []"
| "universal_newlines [c] = (if c = CHR 0x0D then [CHR 0x0A] else [c])"
| "universal_newlines (c # d # cs) =
     (if c = CHR 0x0D
      then (if d = CHR 0x0A then CHR 0x0A # universal_newlines cs
            else CHR 0x0A # universal_newlines (d # cs))
      else c # universal_newlines (d # cs))"

definition read_text :: "(string \<Rightarrow> string option) \<Rightarrow> path \<Rightarrow> string prog" where
  "read_text decode p =
     effect (ReadText p) (\<lambda>fs. (case read_bytes fs p of
                                   None \<Rightarrow> Inl (FilesystemError p)
                                 | Some c \<Rightarrow> (case decode c of
                                                None \<Rightarrow> Inl (DecodeError p)
                                              | Some t \<Rightarrow> Inr (universal_newlines t)), fs))"

text \<open>
  \<open>Path.mkdir(exist_ok=True)\<close>: an existing directory is accepted, an existing file or a
  missing parent is an error.
\<close>

definition mkdir_exist_ok :: "path \<Rightarrow> unit prog" where
  "mkdir_exist_ok p =
     effect (Mkdir p) (\<lambda>fs.
       if is_dir fs p then (Inr (), fs)
       else if path_exists fs p \<or> \<not> is_dir fs (butlast p) then (Inl (FilesystemError p), fs)
       else (Inr (), AList.update p Dir fs))"

text \<open>
  Opening a file for writing and writing it: the parent must be a directory and the path
  must not be one; an existing file keeps its permission bits, a new one gets the bits
  the process creates files with.
\<close>

definition put_file :: "nat \<Rightarrow> path \<Rightarrow> string \<Rightarrow> filesystem \<Rightarrow> filesystem option" where
  "put_file mode0 p c fs =
     (if p = [] \<or> is_dir fs p \<or> \<not> is_dir fs (butlast p) then None
      else Some (AList.update p (File c (case lookup fs p of Some (File c0 m) \<Rightarrow> m | _ \<Rightarrow> mode0)) fs))"

definition write_text :: "nat \<Rightarrow> path \<Rightarrow> string \<Rightarrow> unit prog" where
  "write_text mode0 p c =
     effect (WriteText p c) (\<lambda>fs. case put_file mode0 p c fs of
                                    None \<Rightarrow> (Inl (FilesystemError p), fs)
                                  | Some fs' \<Rightarrow> (Inr (), fs'))"

text \<open>
  \<open>shutil.copy(src, dst)\<close>: into a directory the file keeps its name; the bytes are
  copied, then the permission bits. It returns the path it wrote.
\<close>

definition copy_target :: "filesystem \<Rightarrow> path \<Rightarrow> path \<Rightarrow> path" where
  "copy_target fs src dst = (if is_dir fs dst \<and> src \<noteq> [] then dst @ [last src] else dst)"

definition copy :: "nat \<Rightarrow> path \<Rightarrow> path \<Rightarrow> path prog" where
  "copy mode0 src dst =
     effect (Copy src dst) (\<lambda>fs.
       let target = copy_target fs src dst
       in case lookup fs src of
            Some (File c m) \<Rightarrow>
              if src = target then (Inl (FilesystemError target), fs)
              else (case put_file mode0 target c fs of
                      None \<Rightarrow> (Inl (FilesystemError target), fs)
                    | Some fs' \<Rightarrow> (Inr target, AList.update target (File c m) fs'))
          | _ \<Rightarrow> (Inl (FilesystemError src), fs))"

text \<open>\<open>os.chmod(path, mode)\<close>\<close>

definition chmod :: "path \<Rightarrow> nat \<Rightarrow> unit prog" where
  "chmod p mode =
     effect (Chmod p mode) (\<lambda>fs.
       case lookup fs p of
         Some (File c m) \<Rightarrow> (Inr (), AList.update p (File c mode) fs)
       | Some Dir \<Rightarrow> (Inr (), fs)
       | None \<Rightarrow> (if p = [] then (Inr (), fs) else (Inl (FilesystemError p), fs)))"

text \<open>
  \<open>tree.glob("**/*")\<close> yields every path below the tree, in an order that is the
  operating system's: the order is a parameter. The loops keep the regular files.
\<close>

definition below :: "path \<Rightarrow> path \<Rightarrow> bool" where
  "below tree p \<longleftrightarrow> strict_prefix tree p"

definition glob_files :: "(path list \<Rightarrow> path list) \<Rightarrow> filesystem \<Rightarrow> path \<Rightarrow> path list" where
  "glob_files order fs tree =
     filter (is_file fs) (order (filter (below tree) (map fst fs)))"

text \<open>\<open>str(f.relative_to(tree))\<close>\<close>

definition relative_to :: "path \<Rightarrow> path \<Rightarrow> string" where
  "relative_to tree f = join ''/'' (drop (length tree) f)"

text \<open>\<open>Path(url).name\<close>: the last component.\<close>

definition path_name :: "string \<Rightarrow> string" where
  "path_name url =
     (case rev (filter (\<lambda>c. c \<noteq> []) (split_on CHR ''/'' url)) of [] \<Rightarrow> [] | n # ns \<Rightarrow> n)"

text \<open>
  \<open>Path.with_suffix("")\<close>: the name loses its suffix, which starts at the last dot
  when that dot is neither the first nor the last character of the name.
\<close>

definition strip_suffix :: "string \<Rightarrow> string" where
  "strip_suffix name =
     (let after = length (takeWhile (\<lambda>c. c \<noteq> CHR ''.'') (rev name));
          i = length name - 1 - after
      in if CHR ''.'' \<in> set name \<and> 0 < i \<and> 0 < after then take i name else name)"

definition with_suffix_empty :: "path \<Rightarrow> path" where
  "with_suffix_empty p = (if p = [] then [] else butlast p @ [strip_suffix (last p)])"

subsection \<open>The external tools\<close>

text \<open>
  What the run cannot compute is a parameter of the model: the variable \<open>GIT_TAG\<close>, the
  file system the script starts on, what a download at a given moment writes and whether
  it succeeds, the verdicts of \<open>gpg\<close> and \<open>shasum\<close>, the members of a zip archive,
  SHA-256, the rendering of a message, the bytes of a written archive, the order of a
  directory walk, the permission bits of a newly created file, and the decoding of the
  bytes of a text file (\<open>None\<close> when they are not text of the encoding).
\<close>

record env =
  environ_GIT_TAG :: "string option"
  initial_files :: filesystem
  remote :: "nat \<Rightarrow> string \<Rightarrow> bool \<times> string"
  gpg_verify :: "string \<Rightarrow> string \<Rightarrow> string \<Rightarrow> bool"
  shasum_check :: "string \<Rightarrow> (string \<Rightarrow> string option) \<Rightarrow> bool"
  unzip :: "string \<Rightarrow> (string \<times> string) list option"
  sha256 :: "string \<Rightarrow> string"
  as_string :: "message \<Rightarrow> string"
  zip_bytes :: "(string \<times> string) list \<Rightarrow> string"
  glob_order :: "path list \<Rightarrow> path list"
  create_mode :: nat
  decode_text :: "string \<Rightarrow> string option"

text \<open>
  \<open>wget(url, "-O", path)\<close>: the download writes what it received to the path and exits;
  a non-zero exit raises. The moment of the download is the length of the trace.
\<close>

definition wget :: "env \<Rightarrow> string \<Rightarrow> path \<Rightarrow> unit prog" where
  "wget env url p s =
     effect (Wget url p) (\<lambda>fs.
       let (ok, received) = remote env (length (trace s)) url
       in case put_file (create_mode env) p received fs of
            None \<Rightarrow> (Inl (DownloadError url), fs)
          | Some fs' \<Rightarrow> (if ok then Inr () else Inl (DownloadError url), fs')) s"

text \<open>\<open>gpg --no-default-keyring --keyring K --verify SIG FILE\<close>\<close>

definition gpg :: "env \<Rightarrow> path \<Rightarrow> path \<Rightarrow> path \<Rightarrow> unit prog" where
  "gpg env keyring sig signed =
     effect (Gpg keyring sig signed) (\<lambda>fs.
       case (read_bytes fs keyring, read_bytes fs sig, read_bytes fs signed) of
         (Some k, Some g, Some d) \<Rightarrow>
           (if gpg_verify env k g d then Inr () else Inl VerificationError, fs)
       | _ \<Rightarrow> (Inl VerificationError, fs))"

text \<open>
  \<open>shasum --algorithm 256 --ignore-missing --check MANIFEST\<close>, run in the directory
  \<open>cwd\<close>: the tool sees the manifest and the files of that directory by name.
\<close>

definition shasum :: "env \<Rightarrow> path \<Rightarrow> path \<Rightarrow> unit prog" where
  "shasum env cwd manifest =
     effect (Shasum manifest) (\<lambda>fs.
       case read_bytes fs manifest of
         Some m \<Rightarrow>
           (if shasum_check env m (\<lambda>name. read_bytes fs (cwd @ [name])) then Inr ()
            else Inl IntegrityError, fs)
       | None \<Rightarrow> (Inl IntegrityError, fs))"

text \<open>
  \<open>shutil.unpack_archive(filename, extract_dir, format="zip")\<close>: a member whose name
  starts with a slash or contains two dots in a row is skipped; for the others the
  missing directories above the target are created and, unless the name ends with a
  slash, the member's bytes are written to the target.
\<close>

fun makedirs :: "path \<Rightarrow> filesystem \<Rightarrow> filesystem option" where
  "makedirs [] fs = Some fs"
| "makedirs (c # cs) fs =
     (let p = c # cs
      in if is_dir fs p then Some fs
         else if path_exists fs p then None
         else (case makedirs (butlast p) fs of
                 None \<Rightarrow> None
               | Some fs' \<Rightarrow> Some (AList.update p Dir fs')))"

declare makedirs.simps [simp del]

definition member_target :: "path \<Rightarrow> string \<Rightarrow> path" where
  "member_target extract_dir name =
     extract_dir @ filter (\<lambda>c. c \<noteq> [] \<and> c \<noteq> ''.'') (split_on CHR ''/'' name)"

definition skipped_member :: "string \<Rightarrow> bool" where
  "skipped_member name \<longleftrightarrow> (name \<noteq> [] \<and> hd name = CHR ''/'') \<or> sublist ''..'' name"

text \<open>
  The directory that is created for a member: the target's parent, or the target itself
  when the name ends with a slash (or names the directory by a final dot).
\<close>

definition member_dir :: "path \<Rightarrow> string \<Rightarrow> path" where
  "member_dir extract_dir name =
     (let final = (case rev (split_on CHR ''/'' name) of [] \<Rightarrow> [] | c # cs \<Rightarrow> c)
      in if final = [] \<or> final = ''.'' then member_target extract_dir name
         else butlast (member_target extract_dir name))"

fun extract_members :: "nat \<Rightarrow> path \<Rightarrow> (string \<times> string) list \<Rightarrow> filesystem \<Rightarrow> bool \<times> filesystem" where
  "extract_members mode0 extract_dir [] fs = (True, fs)"
| "extract_members mode0 extract_dir ((name, bytes) # rest) fs =
     (if skipped_member name then extract_members mode0 extract_dir rest fs
      else
        case makedirs (member_dir extract_dir name) fs of
          None \<Rightarrow> (False, fs)
        | Some fs1 \<Rightarrow>
            if name \<noteq> [] \<and> last name = CHR ''/''
            then extract_members mode0 extract_dir rest fs1
            else (case put_file mode0 (member_target extract_dir name) bytes fs1 of
                    None \<Rightarrow> (False, fs1)
                  | Some fs2 \<Rightarrow> extract_members mode0 extract_dir rest fs2))"

definition unpack_archive :: "env \<Rightarrow> path \<Rightarrow> path \<Rightarrow> unit prog" where
  "unpack_archive env filename extract_dir =
     effect (Unpack filename extract_dir) (\<lambda>fs.
       case read_bytes fs filename of
         None \<Rightarrow> (Inl (FilesystemError filename), fs)
       | Some bytes \<Rightarrow>
           (case unzip env bytes of
              None \<Rightarrow> (Inl (FilesystemError filename), fs)
            | Some members \<Rightarrow>
                (case extract_members (create_mode env) extract_dir members fs of
                   (True, fs') \<Rightarrow> (Inr (), fs')
                 | (False, fs') \<Rightarrow> (Inl (FilesystemError extract_dir), fs'))))"

text \<open>\<open>rehash(path)\<close> on the file system.\<close>

definition rehash :: "env \<Rightarrow> path \<Rightarrow> (string \<times> string) prog" where
  "rehash env p =
     effect (Rehash p) (\<lambda>fs.
       case read_bytes fs p of
         None \<Rightarrow> (Inl (FilesystemError p), fs)
       | Some bytes \<Rightarrow> (Inr (rehash_bytes (sha256 env) default_blocksize bytes), fs))"

text \<open>
  \<open>zipfile.ZipFile(wheel_file, "w")\<close> creates or empties the archive file; the loop then
  writes every regular file below the tree under its relative name.
\<close>

definition zip_members :: "env \<Rightarrow> filesystem \<Rightarrow> path \<Rightarrow> (string \<times> string) list" where
  "zip_members env fs tree =
     map (\<lambda>f. (relative_to tree f, case read_bytes fs f of Some c \<Rightarrow> c | None \<Rightarrow> []))
       (glob_files (glob_order env) fs tree)"

definition write_zip :: "env \<Rightarrow> path \<Rightarrow> path \<Rightarrow> unit prog" where
  "write_zip env wheel_file tree s =
     (case put_file (create_mode env) wheel_file [] (files s) of
        None \<Rightarrow> effect (ZipWrite wheel_file []) (\<lambda>fs. (Inl (FilesystemError wheel_file), fs)) s
      | Some opened \<Rightarrow>
          effect (ZipWrite wheel_file (zip_members env opened tree))
            (\<lambda>fs. (Inr (), AList.update wheel_file
                              (File (zip_bytes env (zip_members env opened tree))
                                 (case lookup opened wheel_file of Some (File c m) \<Rightarrow> m | _ \<Rightarrow> 0))
                              opened)) s)"

section \<open>The script\<close>

definition TERRAFORM_URL :: "string \<Rightarrow> string \<Rightarrow> string" where
  "TERRAFORM_URL ver arch =
     ''https://releases.hashicorp.com/terraform/'' @ ver @ ''/terraform_'' @ ver @ ''_'' @ arch @ ''.zip''"

definition TERRAFORM_SHA256_URL :: "string \<Rightarrow> string" where
  "TERRAFORM_SHA256_URL ver =
     ''https://releases.hashicorp.com/terraform/'' @ ver @ ''/terraform_'' @ ver @ ''_SHA256SUMS''"

definition TERRAFORM_SIGS_URL :: "string \<Rightarrow> string" where
  "TERRAFORM_SIGS_URL ver =
     ''https://releases.hashicorp.com/terraform/'' @ ver @ ''/terraform_'' @ ver @ ''_SHA256SUMS.sig''"

definition PACKAGE_NAME :: string where
  "PACKAGE_NAME = ''terraform-binary-wheel''"

definition PACKAGE_WHEELNAME :: "version \<Rightarrow> string" where
  "PACKAGE_WHEELNAME v = join ''-'' [normalize (PStr PACKAGE_NAME), PACKAGE_VERSION v]"

definition PYTHON_TAGS :: "string list" where
  "PYTHON_TAGS = [''py2'', ''py3'']"

definition ABI_TAGS :: "string list" where
  "ABI_TAGS = [''none'']"

definition PY_PLATFORM_TF_ARCH :: "(string \<times> string) list" where
  "PY_PLATFORM_TF_ARCH =
     [(''manylinux_2_5_x86_64.musllinux_1_1_x86_64'', ''linux_amd64''),
      (''manylinux_2_5_i686.musllinux_1_1_i686'', ''linux_386''),
      (''manylinux_2_5_aarch64.musllinux_1_1_aarch64'', ''linux_arm64''),
      (''linux_armv6l.linux_armv7l'', ''linux_arm''),
      (''macosx_11_0_x86_64'', ''darwin_amd64''),
      (''macosx_11_0_arm64'', ''linux_arm64''),
      (''win_amd64'', ''windows_amd64''),
      (''win32'', ''windows_386'')]"

definition LICENSE :: path where
  "LICENSE = [''LICENSE'']"

definition README :: path where
  "README = [''README.md'']"

definition HASHICORP_GPG :: path where
  "HASHICORP_GPG = [''hashicorp.gpg'']"

definition BUILD_DIR :: path where
  "BUILD_DIR = [''build'']"

definition PACKAGE_METADATA_MSG :: "version \<Rightarrow> string \<Rightarrow> message" where
  "PACKAGE_METADATA_MSG v readme =
     make_message
       [(''Metadata-Version'', Single ''2.1''),
        (''Name'', Single PACKAGE_NAME),
        (''Version'', Single (PACKAGE_VERSION v)),
        (''Summary'', Single ''Python wrapper around invoking terraform (https://www.terraform.io/)''),
        (''Home-Page'', Single ''https://github.com/c0m1c5an5/terraform-py''),
        (''Author'', Single ''Maksym Kondratenko''),
        (''Author-Email'', Single ''m.kondratenko.ua@gmail.com''),
        (''License-File'', Single (last LICENSE)),
        (''Classifier'', Multi
           [''Topic :: Utilities'',
            ''Topic :: System :: Software Distribution'',
            ''Programming Language :: Python :: 2'',
            ''Programming Language :: Python :: 3'',
            ''Operating System :: POSIX :: Linux'',
            ''Operating System :: Microsoft :: Windows'',
            ''Operating System :: MacOS'']),
        (''Requires-Python'', Single ''>=2''),
        (''Description-Content-Type'', Single ''text/markdown'')]
       (Some readme)"

definition terraform_sha256 :: "version \<Rightarrow> path" where
  "terraform_sha256 v = BUILD_DIR @ [path_name (TERRAFORM_SHA256_URL (TERRAFORM_VERSION v))]"

definition terraform_sigs :: "version \<Rightarrow> path" where
  "terraform_sigs v = BUILD_DIR @ [path_name (TERRAFORM_SIGS_URL (TERRAFORM_VERSION v))]"

text \<open>The first loop: one download per entry of the platform table, in its order.\<close>

definition terraform_zip_url :: "version \<Rightarrow> string \<Rightarrow> string" where
  "terraform_zip_url v terraform_arch = TERRAFORM_URL (TERRAFORM_VERSION v) terraform_arch"

definition terraform_zip :: "version \<Rightarrow> string \<Rightarrow> path" where
  "terraform_zip v terraform_arch = BUILD_DIR @ [path_name (terraform_zip_url v terraform_arch)]"

fun fetch_loop :: "env \<Rightarrow> version \<Rightarrow> (string \<times> string) list \<Rightarrow> (string \<times> path) list
    \<Rightarrow> (string \<times> path) list prog" where
  "fetch_loop env v [] platform_zip = return_prog platform_zip"
| "fetch_loop env v ((platform, terraform_arch) # rest) platform_zip =
     bind_prog (wget env (terraform_zip_url v terraform_arch) (terraform_zip v terraform_arch))
       (\<lambda>_. fetch_loop env v rest
               (AList.update platform (terraform_zip v terraform_arch) platform_zip))"

text \<open>The second loop's body: the assembly of one platform's wheel.\<close>

definition wheel_name :: "version \<Rightarrow> string \<Rightarrow> string" where
  "wheel_name v platform =
     join ''-'' [PACKAGE_WHEELNAME v, join ''.'' PYTHON_TAGS, join ''.'' ABI_TAGS, platform]"

definition wheel_tree :: "version \<Rightarrow> string \<Rightarrow> path" where
  "wheel_tree v platform = BUILD_DIR @ [wheel_name v platform]"

definition wheel_data :: "version \<Rightarrow> string \<Rightarrow> path" where
  "wheel_data v platform = wheel_tree v platform @ [PACKAGE_WHEELNAME v @ ''.data'']"

definition wheel_scripts :: "version \<Rightarrow> string \<Rightarrow> path" where
  "wheel_scripts v platform = wheel_data v platform @ [''scripts'']"

definition wheel_info :: "version \<Rightarrow> string \<Rightarrow> path" where
  "wheel_info v platform = wheel_tree v platform @ [PACKAGE_WHEELNAME v @ ''.dist-info'']"

definition wheel_record :: "version \<Rightarrow> string \<Rightarrow> path" where
  "wheel_record v platform = wheel_info v platform @ [''RECORD'']"

definition wheel_file :: "version \<Rightarrow> string \<Rightarrow> path" where
  "wheel_file v platform = BUILD_DIR @ [wheel_name v platform @ ''.whl'']"

definition tags :: "string \<Rightarrow> string list" where
  "tags platform =
     concat (map (\<lambda>python_tag. map (\<lambda>abi_tag. join ''-'' [python_tag, abi_tag, platform]) ABI_TAGS)
               PYTHON_TAGS)"

definition wheel_metadata_msg :: "string \<Rightarrow> message" where
  "wheel_metadata_msg platform =
     make_message
       [(''Wheel-Version'', Single ''1.0''),
        (''Generator'', Single ''bdist_wheel 1.0''),
        (''Root-Is-Purelib'', Single ''false''),
        (''Tag'', Multi (tags platform))]
       None"

fun record_loop :: "env \<Rightarrow> path \<Rightarrow> path list \<Rightarrow> (string \<times> string \<times> string) list
    \<Rightarrow> (string \<times> string \<times> string) list prog" where
  "record_loop env tree [] wheel_record_entries = return_prog wheel_record_entries"
| "record_loop env tree (f # fs) wheel_record_entries =
     bind_prog (rehash env f)
       (\<lambda>hl. record_loop env tree fs (AList.update (relative_to tree f) hl wheel_record_entries))"

definition wheel_record_lines :: "(string \<times> string \<times> string) list \<Rightarrow> string list" where
  "wheel_record_lines wheel_record_entries =
     map (\<lambda>(k, digest, len). join '','' [k, digest, len] @ [CHR 0x0A]) wheel_record_entries"

definition assemble :: "env \<Rightarrow> version \<Rightarrow> message \<Rightarrow> string \<times> path \<Rightarrow> unit prog" where
  "assemble env v metadata_msg item =
     (let platform = fst item;
          zip = snd item;
          tree = wheel_tree v platform;
          terraform_src = with_suffix_empty zip
      in bind_prog (mkdir_exist_ok tree) (\<lambda>_.
         bind_prog (unpack_archive env zip terraform_src) (\<lambda>_.
         bind_prog (mkdir_exist_ok (wheel_data v platform)) (\<lambda>_.
         bind_prog (mkdir_exist_ok (wheel_scripts v platform)) (\<lambda>_.
         bind_prog (mkdir_exist_ok (wheel_info v platform)) (\<lambda>_.
         bind_prog get_files (\<lambda>fs.
         let terraform_src_binary =
               (if path_exists fs (terraform_src @ [''terraform''])
                then terraform_src @ [''terraform'']
                else terraform_src @ [''terraform.exe'']);
             terraform_binary = wheel_scripts v platform @ [last terraform_src_binary]
         in bind_prog (copy (create_mode env) terraform_src_binary terraform_binary) (\<lambda>_.
            bind_prog (chmod terraform_binary 493) (\<lambda>_.
            bind_prog (copy (create_mode env) LICENSE (wheel_info v platform)) (\<lambda>_.
            bind_prog (write_text (create_mode env) (wheel_info v platform @ [''METADATA''])
                         (as_string env metadata_msg)) (\<lambda>_.
            bind_prog (write_text (create_mode env) (wheel_info v platform @ [''WHEEL''])
                         (as_string env (wheel_metadata_msg platform))) (\<lambda>_.
            bind_prog get_files (\<lambda>fs.
            bind_prog (record_loop env tree (glob_files (glob_order env) fs tree) []) (\<lambda>entries.
            let wheel_record_entries =
                  AList.update (relative_to tree (wheel_record v platform)) ([], []) entries
            in bind_prog (write_text (create_mode env) (wheel_record v platform)
                            (concat (wheel_record_lines wheel_record_entries))) (\<lambda>_.
               write_zip env (wheel_file v platform) tree)))))))))))))))"

text \<open>The script from its first statement that can fail after the version is parsed.\<close>

definition script :: "env \<Rightarrow> version \<Rightarrow> unit prog" where
  "script env v =
     bind_prog (read_text (decode_text env) README) (\<lambda>readme.
     bind_prog (mkdir_exist_ok BUILD_DIR) (\<lambda>_.
     bind_prog (wget env (TERRAFORM_SHA256_URL (TERRAFORM_VERSION v)) (terraform_sha256 v)) (\<lambda>_.
     bind_prog (wget env (TERRAFORM_SIGS_URL (TERRAFORM_VERSION v)) (terraform_sigs v)) (\<lambda>_.
     bind_prog (gpg env HASHICORP_GPG (terraform_sigs v) (terraform_sha256 v)) (\<lambda>_.
     bind_prog (fetch_loop env v PY_PLATFORM_TF_ARCH []) (\<lambda>platform_zip.
     bind_prog (shasum env BUILD_DIR (terraform_sha256 v)) (\<lambda>_.
     for_each (assemble env v (PACKAGE_METADATA_MSG v readme)) platform_zip)))))))"

definition initial_state :: "env \<Rightarrow> state" where
  "initial_state env = \<lparr>files = initial_files env, trace = []\<rparr>"

definition main :: "env \<Rightarrow> error \<times> state + unit \<times> state" where
  "main env =
     (case parse (GIT_TAG (environ_GIT_TAG env)) of
        None \<Rightarrow> Inl (ParseError, initial_state env)
      | Some v \<Rightarrow> script env v (initial_state env))"

text \<open>
  An uncaught exception ends the interpreter with status 1; running off the end of the
  script ends it with status 0.
\<close>

definition exit_status :: "error \<times> state + unit \<times> state \<Rightarrow> nat" where
  "exit_status r = (case r of Inl e \<Rightarrow> 1 | Inr x \<Rightarrow> 0)"

definition final_state :: "error \<times> state + 'a \<times> state \<Rightarrow> state" where
  "final_state r = (case r of Inl (e, s) \<Rightarrow> s | Inr (x, s) \<Rightarrow> s)"

section \<open>Definitions used to state the properties\<close>

definition opt_list :: "'a option \<Rightarrow> 'a list" where
  "opt_list x = (case x of None \<Rightarrow> [] | Some y \<Rightarrow> [y])"

text \<open>The number of padding characters of the padded base64 encoding.\<close>

definition pad_length :: "string \<Rightarrow> nat" where
  "pad_length s = (3 - length s mod 3) mod 3"

text \<open>
  A world in which every tool succeeds: the three input files exist, every download
  writes the same bytes, and every archive holds the one file \<open>terraform\<close>.
\<close>

definition example_env :: env where
  "example_env =
     \<lparr>environ_GIT_TAG = None,
      initial_files = [([''LICENSE''], File ''BSD'' 420), ([''README.md''], File ''readme'' 420),
                       ([''hashicorp.gpg''], File ''key'' 420)],
      remote = (\<lambda>t url. (True, ''zip'')),
      gpg_verify = (\<lambda>k g d. True),
      shasum_check = (\<lambda>m f. True),
      unzip = (\<lambda>b. Some [(''terraform'', ''ELF'')]),
      sha256 = (\<lambda>b. b),
      as_string = (\<lambda>m. concat (map (\<lambda>(k, v). k @ '': '' @ v @ [CHR 0x0A]) (header_lines m))),
      zip_bytes = (\<lambda>ms. concat (map fst ms)),
      glob_order = (\<lambda>ps. ps),
      create_mode = 420,
      decode_text = Some\<rparr>"

definition steps :: "(action \<Rightarrow> bool) \<Rightarrow> 'a prog \<Rightarrow> bool" where
  "steps K m \<longleftrightarrow>
     (\<forall>s. case m s of
            Inl (e, s') \<Rightarrow>
              (\<exists>evs a. trace s' = trace s @ evs @ [(a, False)] \<and> list_all snd evs
                        \<and> list_all (\<lambda>ev. K (fst ev)) evs \<and> K a)
          | Inr (x, s') \<Rightarrow>
              (\<exists>evs. trace s' = trace s @ evs \<and> list_all snd evs \<and> list_all (\<lambda>ev. K (fst ev)) evs))"

definition assembly_action :: "action \<Rightarrow> bool" where
  "assembly_action a \<longleftrightarrow>
     (case a of Gpg k g d \<Rightarrow> False | Shasum m \<Rightarrow> False | Wget u p \<Rightarrow> False
      | ReadText p \<Rightarrow> False | _ \<Rightarrow> True)"

definition tr_hoare :: "(event list \<Rightarrow> bool) \<Rightarrow> 'a prog \<Rightarrow> (event list \<Rightarrow> bool) \<Rightarrow> (event list \<Rightarrow> bool) \<Rightarrow> bool" where
  "tr_hoare P m Q E \<longleftrightarrow>
     (\<forall>s. P (trace s) \<longrightarrow> (case m s of Inl (e, s') \<Rightarrow> E (trace s') | Inr (x, s') \<Rightarrow> Q (trace s')))"

fun ordered_rev :: "event list \<Rightarrow> bool" where
  "ordered_rev [] = True"
| "ordered_rev (ev # earlier) =
     (ordered_rev earlier
      \<and> (case fst ev of
           Shasum m \<Rightarrow> (\<exists>k g. (Gpg k g m, True) \<in> set earlier)
         | Unpack z d \<Rightarrow> (\<exists>m. (Shasum m, True) \<in> set earlier)
         | _ \<Rightarrow> True))"

definition verified_order :: "event list \<Rightarrow> bool" where
  "verified_order tr = ordered_rev (rev tr)"

definition plain_action :: "action \<Rightarrow> bool" where
  "plain_action a \<longleftrightarrow> (case a of Shasum m \<Rightarrow> False | Unpack z d \<Rightarrow> False | _ \<Rightarrow> True)"



definition grown :: "path set \<Rightarrow> filesystem \<Rightarrow> filesystem \<Rightarrow> bool" where
  "grown A fs fs' \<longleftrightarrow>
     fst ` set fs' \<subseteq> fst ` set fs \<union> A
     \<and> (distinct (map fst fs) \<longrightarrow> distinct (map fst fs'))
     \<and> (\<forall>k. k \<notin> A \<longrightarrow> lookup fs' k = lookup fs k)"

definition grows :: "path set \<Rightarrow> 'a prog \<Rightarrow> bool" where
  "grows A m \<longleftrightarrow> (\<forall>s. grown A (files s) (files (final_state (m s))))"

definition touches :: "path set \<Rightarrow> filesystem \<Rightarrow> filesystem \<Rightarrow> bool" where
  "touches A fs fs' \<longleftrightarrow> fs' = fs \<or> (\<exists>k n. k \<in> A \<and> fs' = AList.update k n fs)"

definition related :: "path \<Rightarrow> path set" where
  "related d = {q. prefix q d \<or> prefix d q}"



definition terraform_src_binary :: "filesystem \<Rightarrow> path \<Rightarrow> path" where
  "terraform_src_binary fs terraform_src =
     (if path_exists fs (terraform_src @ [''terraform''])
      then terraform_src @ [''terraform'']
      else terraform_src @ [''terraform.exe''])"

definition keys_below :: "path \<Rightarrow> filesystem \<Rightarrow> path list" where
  "keys_below tree fs = filter (below tree) (map fst fs)"

definition record_line :: "(string \<Rightarrow> string) \<Rightarrow> string \<Rightarrow> string \<Rightarrow> string" where
  "record_line H name bytes =
     name @ '','' @ ''sha256='' @ b64url_unpadded (H bytes) @ '','' @ str_nat (length bytes) @ [CHR 0x0A]"

definition wheel_members ::
  "env \<Rightarrow> version \<Rightarrow> message \<Rightarrow> string \<Rightarrow> string \<Rightarrow> string \<Rightarrow> string \<Rightarrow> string
   \<Rightarrow> (string \<times> string) multiset" where
  "wheel_members env v msg platform binary bin_bytes license_bytes record_bytes =
     {#(PACKAGE_WHEELNAME v @ ''.data/scripts/'' @ binary, bin_bytes),
       (PACKAGE_WHEELNAME v @ ''.dist-info/LICENSE'', license_bytes),
       (PACKAGE_WHEELNAME v @ ''.dist-info/METADATA'', as_string env msg),
       (PACKAGE_WHEELNAME v @ ''.dist-info/WHEEL'', as_string env (wheel_metadata_msg platform)),
       (PACKAGE_WHEELNAME v @ ''.dist-info/RECORD'', record_bytes)#}"

definition wheel_lines ::
  "env \<Rightarrow> version \<Rightarrow> message \<Rightarrow> string \<Rightarrow> string \<Rightarrow> string \<Rightarrow> string \<Rightarrow> string multiset" where
  "wheel_lines env v msg platform binary bin_bytes license_bytes =
     {#record_line (sha256 env) (PACKAGE_WHEELNAME v @ ''.data/scripts/'' @ binary) bin_bytes,
       record_line (sha256 env) (PACKAGE_WHEELNAME v @ ''.dist-info/LICENSE'') license_bytes,
       record_line (sha256 env) (PACKAGE_WHEELNAME v @ ''.dist-info/METADATA'') (as_string env msg),
       record_line (sha256 env) (PACKAGE_WHEELNAME v @ ''.dist-info/WHEEL'')
         (as_string env (wheel_metadata_msg platform)),
       PACKAGE_WHEELNAME v @ ''.dist-info/RECORD'' @ '',,'' @ [CHR 0x0A]#}"

definition wheel_ok :: "env \<Rightarrow> version \<Rightarrow> message \<Rightarrow> string \<Rightarrow> (string \<times> string) list \<Rightarrow> bool" where
  "wheel_ok env v msg platform ms \<longleftrightarrow>
     (\<exists>binary bin_bytes license_bytes lines.
        (binary = ''terraform'' \<or> binary = ''terraform.exe'')
        \<and> mset ms = wheel_members env v msg platform binary bin_bytes license_bytes (concat lines)
        \<and> mset lines = wheel_lines env v msg platform binary bin_bytes license_bytes)"



definition touched :: "version \<Rightarrow> string \<Rightarrow> path \<Rightarrow> path set" where
  "touched v platform archive =
     related (with_suffix_empty archive) \<union> {q. prefix (wheel_tree v platform) q}
     \<union> {wheel_file v platform}"

definition is_wheel_event :: "event \<Rightarrow> bool" where
  "is_wheel_event ev \<longleftrightarrow> snd ev \<and> (case fst ev of ZipWrite w ms \<Rightarrow> True | _ \<Rightarrow> False)"

definition other_action :: "action \<Rightarrow> bool" where
  "other_action a \<longleftrightarrow> (case a of ZipWrite w ms \<Rightarrow> False | _ \<Rightarrow> True)"

text \<open>
  A world in which every download and both verifications succeed, but no archive can be
  unpacked.
\<close>

definition broken_archive_env :: env where
  "broken_archive_env = example_env\<lparr>unzip := (\<lambda>b. None)\<rparr>"

text \<open>The downloads of a trace that were written to one path, with their outcomes.\<close>

definition downloads_to :: "path \<Rightarrow> event list \<Rightarrow> (string \<times> bool) list" where
  "downloads_to p tr =
     concat (map (\<lambda>ev. case fst ev of Wget u q \<Rightarrow> (if q = p then [(u, snd ev)] else []) | _ \<Rightarrow> []) tr)"

definition default_version :: version where
  "default_version = \<lparr>major = 1, minor = 5, patch = 7, prerelease = Some ''rc0'', build = None\<rparr>"

definition hoare :: "(state \<Rightarrow> bool) \<Rightarrow> 'a prog \<Rightarrow> ('a \<Rightarrow> state \<Rightarrow> bool) \<Rightarrow> (state \<Rightarrow> bool) \<Rightarrow> bool" where
  "hoare P m Q E \<longleftrightarrow>
     (\<forall>s. P s \<longrightarrow> (case m s of Inl (e, s') \<Rightarrow> E s' | Inr (x, s') \<Rightarrow> Q x s'))"

text \<open>Every wheel file written so far holds what the wheel of its platform has to hold.\<close>

definition wheels_good :: "env \<Rightarrow> version \<Rightarrow> message \<Rightarrow> state \<Rightarrow> bool" where
  "wheels_good env v msg s \<longleftrightarrow>
     (\<forall>w ms. (ZipWrite w ms, True) \<in> set (trace s) \<longrightarrow>
        (\<exists>platform. platform \<in> fst ` set PY_PLATFORM_TF_ARCH \<and> w = wheel_file v platform
                     \<and> wheel_ok env v msg platform ms))"

definition items_ok :: "version \<Rightarrow> (string \<times> path) list \<Rightarrow> bool" where
  "items_ok v items \<longleftrightarrow>
     distinct (map fst items)
     \<and> (\<forall>item \<in> set items. fst item \<in> fst ` set PY_PLATFORM_TF_ARCH
            \<and> (\<exists>arch. CHR ''/'' \<notin> set arch \<and> snd item = terraform_zip v arch))"

definition trees_fresh :: "version \<Rightarrow> string list \<Rightarrow> state \<Rightarrow> bool" where
  "trees_fresh v platforms s \<longleftrightarrow>
     (\<forall>platform \<in> set platforms. keys_below (wheel_tree v platform) (files s) = [])"

definition loop_inv :: "env \<Rightarrow> version \<Rightarrow> message \<Rightarrow> (string \<times> path) list \<Rightarrow> state \<Rightarrow> bool" where
  "loop_inv env v msg items s \<longleftrightarrow>
     items_ok v items \<and> trees_fresh v (map fst items) s \<and> wheels_good env v msg s"

text \<open>Before the assembly loop: no wheel tree holds anything and no wheel is written.\<close>

definition nothing_assembled :: "version \<Rightarrow> state \<Rightarrow> bool" where
  "nothing_assembled v s \<longleftrightarrow>
     (\<forall>platform. keys_below (wheel_tree v platform) (files s) = [])
     \<and> filter is_wheel_event (trace s) = []"



text \<open>
  A world in which only the first archive that is downloaded can be unpacked, so that
  exactly one wheel is assembled before the run fails.
\<close>

definition single_wheel_env :: env where
  "single_wheel_env =
     \<lparr>environ_GIT_TAG = None,
      initial_files = [([''LICENSE''], File ''BSD'' 420), ([''README.md''], File ''readme'' 420),
                       ([''hashicorp.gpg''], File ''key'' 420)],
      remote = (\<lambda>t url. (True, if t = 5 then ''good'' else ''bad'')),
      gpg_verify = (\<lambda>k g d. True),
      shasum_check = (\<lambda>m f. True),
      unzip = (\<lambda>b. if b = ''good'' then Some [(''terraform'', ''ELF'')] else None),
      sha256 = (\<lambda>b. ''h''),
      as_string = (\<lambda>m. ''M''),
      zip_bytes = (\<lambda>ms. ''Z''),
      glob_order = (\<lambda>ps. ps),
      create_mode = 420,
      decode_text = Some\<rparr>"

text \<open>The items of a loop, each with the state in which its iteration starts.\<close>

fun iteration_starts :: "('a \<Rightarrow> unit prog) \<Rightarrow> 'a list \<Rightarrow> state \<Rightarrow> ('a \<times> state) list" where
  "iteration_starts body [] s = []"
| "iteration_starts body (x # xs) s =
     (x, s) # (case body x s of Inl r \<Rightarrow> [] | Inr r \<Rightarrow> iteration_starts body xs (snd r))"

text \<open>The script before its second loop, returning what the loop uses.\<close>

definition fetch_phase :: "env \<Rightarrow> version \<Rightarrow> (string \<times> (string \<times> path) list) prog" where
  "fetch_phase env v =
     bind_prog (read_text (decode_text env) README) (\<lambda>readme.
     bind_prog (mkdir_exist_ok BUILD_DIR) (\<lambda>_.
     bind_prog (wget env (TERRAFORM_SHA256_URL (TERRAFORM_VERSION v)) (terraform_sha256 v)) (\<lambda>_.
     bind_prog (wget env (TERRAFORM_SIGS_URL (TERRAFORM_VERSION v)) (terraform_sigs v)) (\<lambda>_.
     bind_prog (gpg env HASHICORP_GPG (terraform_sigs v) (terraform_sha256 v)) (\<lambda>_.
     bind_prog (fetch_loop env v PY_PLATFORM_TF_ARCH []) (\<lambda>platform_zip.
     bind_prog (shasum env BUILD_DIR (terraform_sha256 v)) (\<lambda>_.
     return_prog (readme, platform_zip))))))))"

text \<open>
  The iterations of the second loop in a run of the script: each item of the mapping with
  the state in which its assembly starts.
\<close>

definition assembly_starts :: "env \<Rightarrow> version \<Rightarrow> state \<Rightarrow> ((string \<times> path) \<times> state) list" where
  "assembly_starts env v s =
     (case fetch_phase env v s of
        Inl r \<Rightarrow> []
      | Inr r \<Rightarrow> iteration_starts (assemble env v (PACKAGE_METADATA_MSG v (fst (fst r))))
                   (snd (fst r)) (snd r))"



text \<open>
  A world in which a download receives the decimal numeral of its moment and the archive
  received at moment 10 cannot be unpacked.
\<close>

definition shared_archive_env :: env where
  "shared_archive_env =
     single_wheel_env
       \<lparr>remote := (\<lambda>t url. (True, str_nat t)),
        unzip := (\<lambda>b. if b = ''10'' then None else Some [(''terraform'', ''ELF'')])\<rparr>"









section \<open>Properties of normalize\<close>

lemma re_sub_seps_no_lead:
  "xs = [] \<or> \<not> is_sep (hd xs) \<Longrightarrow> dropWhile is_sep (re_sub_seps xs) = re_sub_seps xs"
  by (cases xs) auto

lemma dropWhile_lead: "dropWhile P xs = [] \<or> \<not> P (hd (dropWhile P xs))"
  by (metis hd_dropWhile)

lemma re_sub_seps_idem: "re_sub_seps (re_sub_seps s) = re_sub_seps s"
proof (induction s rule: re_sub_seps.induct)
  case 1
  then show ?case by simp
next
  case (2 c cs)
  show ?case
  proof (cases "is_sep c")
    case True
    have "is_sep CHR ''_''" by (simp add: is_sep_def)
    with True 2 show ?thesis
      by (simp add: re_sub_seps_no_lead [OF dropWhile_lead [of is_sep cs]])
  next
    case False
    with 2 show ?thesis by simp
  qed
qed

lemma re_sub_seps_nonsep_prefix:
  "re_sub_seps xs = takeWhile (\<lambda>d. \<not> is_sep d) xs @ re_sub_seps (dropWhile (\<lambda>d. \<not> is_sep d) xs)"
  by (induction xs) auto

lemma same_class_sep: "is_sep c \<Longrightarrow> same_class c = is_sep"
  by (auto simp: same_class_def)

lemma same_class_nonsep: "\<not> is_sep c \<Longrightarrow> same_class c = (\<lambda>d. \<not> is_sep d)"
  by (auto simp: same_class_def)

lemma re_sub_seps_runs: "re_sub_seps s = collapse_runs s"
proof (induction s rule: runs.induct)
  case 1
  then show ?case by (simp add: collapse_runs_def)
next
  case (2 c cs)
  show ?case
  proof (cases "is_sep c")
    case True
    with 2 show ?thesis by (simp add: collapse_runs_def same_class_sep)
  next
    case False
    have "re_sub_seps (c # cs) = c # re_sub_seps cs" using False by simp
    also have "\<dots> = c # takeWhile (\<lambda>d. \<not> is_sep d) cs @ re_sub_seps (dropWhile (\<lambda>d. \<not> is_sep d) cs)"
      using re_sub_seps_nonsep_prefix [of cs] by simp
    finally show ?thesis using False 2 by (simp add: collapse_runs_def same_class_nonsep)
  qed
qed

text \<open>
  The runs really are the maximal runs: they partition the string, each is non-empty and
  of one class, and two neighbours are of different classes.
\<close>

lemma concat_runs: "concat (runs s) = s"
  by (induction s rule: runs.induct) auto

lemma runs_homogeneous:
  "r \<in> set (runs s) \<Longrightarrow> r \<noteq> [] \<and> (\<forall>d \<in> set r. same_class (hd r) d)"
proof (induction s rule: runs.induct)
  case 1
  then show ?case by simp
next
  case (2 c cs)
  from 2(2) have "r = c # takeWhile (same_class c) cs \<or> r \<in> set (runs (dropWhile (same_class c) cs))"
    by simp
  then consider "r = c # takeWhile (same_class c) cs" | "r \<in> set (runs (dropWhile (same_class c) cs))"
    by blast
  then show ?case
  proof cases
    case 1
    have "same_class c d" if "d \<in> set (takeWhile (same_class c) cs)" for d
      using set_takeWhileD [OF that] by (rule conjunct2)
    moreover have "same_class c c" by (simp add: same_class_def)
    ultimately show ?thesis using 1 by auto
  next
    case 2
    then show ?thesis by (rule "2.IH")
  qed
qed

lemma runs_maximal: "runs s = xs @ r1 # r2 # ys \<Longrightarrow> \<not> same_class (hd r1) (hd r2)"
proof (induction s arbitrary: xs rule: runs.induct)
  case 1
  then show ?case by simp
next
  case (2 c cs)
  let ?P = "same_class c"
  show ?case
  proof (cases xs)
    case Nil
    with 2 have r1: "r1 = c # takeWhile ?P cs" and rest: "runs (dropWhile ?P cs) = r2 # ys" by auto
    from rest have ne: "dropWhile ?P cs \<noteq> []" by (cases "dropWhile ?P cs") simp_all
    then obtain d ds where d: "dropWhile ?P cs = d # ds" by (cases "dropWhile ?P cs") auto
    with rest have "hd r2 = d" by auto
    moreover have "\<not> ?P d" using hd_dropWhile [OF ne] d by simp
    ultimately show ?thesis using r1 by simp
  next
    case (Cons x xs')
    with 2(2) have "runs (dropWhile ?P cs) = xs' @ r1 # r2 # ys" by simp
    then show ?thesis by (rule 2(1))
  qed
qed

text \<open>
  Claim C6: normalize is idempotent, and it replaces every maximal run of the characters
  \<open>-\<close>, \<open>_\<close> and \<open>.\<close> by a single underscore and leaves every other character as it is.
\<close>

theorem normalize_idempotent_collapses_runs:
  "normalize (PStr (normalize a)) = normalize a
   \<and> normalize (PStr s) = collapse_runs s
   \<and> concat (runs s) = s"
proof (intro conjI)
  show "normalize (PStr (normalize a)) = normalize a"
    by (simp add: normalize_def re_sub_seps_idem)
  show "normalize (PStr s) = collapse_runs s"
    by (simp add: normalize_def re_sub_seps_runs)
  show "concat (runs s) = s"
    by (rule concat_runs)
qed

theorem normalize_idempotent_collapses_runs_witness:
  "normalize (PStr ''terraform-binary-wheel'') = ''terraform_binary_wheel''
   \<and> normalize (PStr (normalize (PStr ''a-_.b..c_''))) = ''a_b_c_''
   \<and> runs ''a-_.b..c_'' = [''a'', ''-_.'', ''b'', ''..'', ''c'', ''_'']"
proof -
  have "collapse_runs ''terraform-binary-wheel'' = ''terraform_binary_wheel''" by code_simp
  moreover have "normalize (PStr ''a-_.b..c_'') = ''a_b_c_''" by code_simp
  moreover have "runs ''a-_.b..c_'' = [''a'', ''-_.'', ''b'', ''..'', ''c'', ''_'']" by code_simp
  ultimately show ?thesis
    using normalize_idempotent_collapses_runs [of "PStr ''a-_.b..c_''" "''terraform-binary-wheel''"]
    by simp
qed

section \<open>Properties of the version resolver\<close>

lemma digit_char_not_sep: "d < 10 \<Longrightarrow> \<not> is_sep (digit_char d)"
proof -
  have "\<forall>d < 10. \<not> is_sep (''0123456789'' ! d)" unfolding is_sep_def by code_simp
  then show "d < 10 \<Longrightarrow> \<not> is_sep (digit_char d)" by (simp add: digit_char_def)
qed

lemma re_sub_seps_no_sep: "list_all (\<lambda>c. \<not> is_sep c) s \<Longrightarrow> re_sub_seps s = s"
  by (induction s) simp_all

lemma str_nat_no_sep: "list_all (\<lambda>c. \<not> is_sep c) (str_nat n)"
proof (induction n rule: str_nat.induct)
  case (1 n)
  show ?case
  proof (cases "n < 10")
    case True
    then show ?thesis by (simp add: str_nat.simps [of n] digit_char_not_sep)
  next
    case False
    with 1 show ?thesis by (simp add: str_nat.simps [of n] digit_char_not_sep)
  qed
qed

lemma normalize_nonneg: "0 \<le> i \<Longrightarrow> normalize (PInt i) = str_int i"
  by (simp add: normalize_def str_int_def re_sub_seps_no_sep str_nat_no_sep)

lemma split_on_nonempty: "split_on c s \<noteq> []"
  by (induction s) (auto split: list.splits)

text \<open>What a successful parse guarantees of the fields.\<close>

lemma parse_fields:
  assumes "parse s = Some v"
  shows "0 \<le> major v" "0 \<le> minor v" "0 \<le> patch v"
    "prerelease v \<noteq> Some []" "build v \<noteq> Some []"
  using assms
  by (auto simp: parse_def Let_def int_of_digits_def is_prerelease_id_def is_build_id_def
      split: prod.splits list.splits if_splits option.splits)

text \<open>
  The package version of a parsed version: the numeric components that are not zero,
  then the pre-release and build tags that are present, each normalized.
\<close>

lemma package_version_formula:
  assumes "parse s = Some v"
  shows "PACKAGE_VERSION v =
           join ''.'' (map str_int (filter (\<lambda>n. n \<noteq> 0) [major v, minor v, patch v])
                       @ map re_sub_seps (opt_list (prerelease v) @ opt_list (build v)))"
  using parse_fields [OF assms]
  by (cases "prerelease v"; cases "build v")
     (simp_all add: PACKAGE_VERSION_def to_tuple_def opt_val_def opt_list_def normalize_nonneg,
      simp_all add: normalize_def)

text \<open>Where no numeric component is zero the package version is the one the spec words.\<close>

lemma package_version_without_zero:
  assumes "parse s = Some v" and "major v \<noteq> 0" and "minor v \<noteq> 0" and "patch v \<noteq> 0"
  shows "PACKAGE_VERSION v = spec_package_version v"
  using parse_fields [OF assms(1)] assms(2-)
  by (cases "prerelease v"; cases "build v")
     (simp_all add: PACKAGE_VERSION_def spec_package_version_def present_components_def
        to_tuple_def opt_val_def)

text \<open>The tool version is always the three numeric components joined with dots.\<close>

lemma terraform_version_formula:
  "TERRAFORM_VERSION v = join ''.'' [str_int (major v), str_int (minor v), str_int (patch v)]"
  by (simp add: TERRAFORM_VERSION_def version_str_def finalize_version_def opt_val_def)

text \<open>
  Claim C2 says that no present component is ever omitted from the package version. The
  code drops a numeric component that is zero: for the tag \<open>0.5.7\<close> the package version
  is \<open>5.7\<close>, where the spec's wording gives \<open>0.5.7\<close>; the tool version is \<open>0.5.7\<close>.
\<close>

theorem package_version_drops_zero_component:
  "parse ''0.5.7'' = Some \<lparr>major = 0, minor = 5, patch = 7, prerelease = None, build = None\<rparr>
   \<and> PACKAGE_VERSION \<lparr>major = 0, minor = 5, patch = 7, prerelease = None, build = None\<rparr> = ''5.7''
   \<and> spec_package_version \<lparr>major = 0, minor = 5, patch = 7, prerelease = None, build = None\<rparr>
       = ''0.5.7''
   \<and> TERRAFORM_VERSION \<lparr>major = 0, minor = 5, patch = 7, prerelease = None, build = None\<rparr>
       = ''0.5.7''"
  by code_simp

text \<open>
  Claim C4: for the version input \<open>1.5.7-rc0\<close>, which is also the default when the
  variable is unset, the package version is \<open>1.5.7.rc0\<close> and the tool version is
  \<open>1.5.7\<close>.
\<close>

theorem default_tag_versions:
  "GIT_TAG None = ''1.5.7-rc0''
   \<and> map_option PACKAGE_VERSION (parse ''1.5.7-rc0'') = Some ''1.5.7.rc0''
   \<and> map_option TERRAFORM_VERSION (parse ''1.5.7-rc0'') = Some ''1.5.7''"
  by code_simp

theorem default_tag_versions_witness:
  "map_option PACKAGE_VERSION (parse (GIT_TAG None)) = Some ''1.5.7.rc0''"
  using default_tag_versions by simp

text \<open>
  Claim C10: for every valid version input whose major, minor or patch component is zero,
  the package version omits that component, because the components are filtered by their
  truth value before they are joined; so \<open>1.5.0\<close> yields \<open>1.5\<close>.
\<close>

theorem package_version_omits_zero:
  assumes "parse s = Some v"
  shows "(major v = 0 \<longrightarrow> PACKAGE_VERSION v = join ''.'' (map normalize (filter truthy
            [PInt (minor v), PInt (patch v), opt_val (prerelease v), opt_val (build v)])))
       \<and> (minor v = 0 \<longrightarrow> PACKAGE_VERSION v = join ''.'' (map normalize (filter truthy
            [PInt (major v), PInt (patch v), opt_val (prerelease v), opt_val (build v)])))
       \<and> (patch v = 0 \<longrightarrow> PACKAGE_VERSION v = join ''.'' (map normalize (filter truthy
            [PInt (major v), PInt (minor v), opt_val (prerelease v), opt_val (build v)])))
       \<and> PACKAGE_VERSION v =
           join ''.'' (map str_int (filter (\<lambda>n. n \<noteq> 0) [major v, minor v, patch v])
                       @ map re_sub_seps (opt_list (prerelease v) @ opt_list (build v)))"
  using package_version_formula [OF assms]
  by (simp add: PACKAGE_VERSION_def to_tuple_def)

theorem package_version_omits_zero_witness:
  "parse ''1.5.0'' = Some \<lparr>major = 1, minor = 5, patch = 0, prerelease = None, build = None\<rparr>
   \<and> PACKAGE_VERSION \<lparr>major = 1, minor = 5, patch = 0, prerelease = None, build = None\<rparr>
       = join ''.'' (map normalize [PInt 1, PInt 5])
   \<and> PACKAGE_VERSION \<lparr>major = 1, minor = 5, patch = 0, prerelease = None, build = None\<rparr> = ''1.5''"
proof -
  have p: "parse ''1.5.0'' = Some \<lparr>major = 1, minor = 5, patch = 0, prerelease = None, build = None\<rparr>"
    by code_simp
  have n: "join ''.'' (map normalize [PInt 1, PInt 5]) = ''1.5''" by code_simp
  from package_version_omits_zero [OF p] have
    "PACKAGE_VERSION \<lparr>major = 1, minor = 5, patch = 0, prerelease = None, build = None\<rparr>
       = join ''.'' (map normalize [PInt 1, PInt 5])"
    by (simp add: opt_val_def)
  with p n show ?thesis by simp
qed

section \<open>Properties of the content digest\<close>

lemma concat_read_chunks: "0 < sz \<Longrightarrow> concat (read_chunks sz data) = data"
proof (induction sz data rule: read_chunks.induct)
  case (1 sz data)
  show ?case
  proof (cases "take sz data = []")
    case True
    with 1(2) have "data = []" by simp
    then show ?thesis by (simp add: read_chunks.simps)
  next
    case False
    with 1 have "concat (read_chunks sz (drop sz data)) = drop sz data" by simp
    with False show ?thesis by (simp add: read_chunks.simps [of sz data] Let_def)
  qed
qed

lemma rehash_loop_concat:
  "rehash_loop blocks (h, len) = (h\<lparr>fed := fed h @ concat blocks\<rparr>, len + length (concat blocks))"
  by (induction blocks arbitrary: h len) (simp_all add: hash_update_def)

lemma b64_char_url:
  "i < 64 \<Longrightarrow> urlsafe_translate (b64_char i) = b64url_char i"
proof -
  have "\<forall>i < 64. urlsafe_translate (b64_alphabet ! i) = b64url_alphabet ! i"
    unfolding b64_alphabet_def b64url_alphabet_def urlsafe_translate_def
    by code_simp
  then show "i < 64 \<Longrightarrow> urlsafe_translate (b64_char i) = b64url_char i"
    by (simp add: b64_char_def b64url_char_def)
qed

lemma b64url_char_not_pad: "i < 64 \<Longrightarrow> b64url_char i \<noteq> CHR ''=''"
proof -
  have "CHR ''='' \<notin> set b64url_alphabet" by (simp add: b64url_alphabet_def)
  moreover have "length b64url_alphabet = 64" by (simp add: b64url_alphabet_def)
  ultimately show "i < 64 \<Longrightarrow> b64url_char i \<noteq> CHR ''=''"
    unfolding b64url_char_def by (metis nth_mem)
qed

lemma byte_lt: "byte c < 256"
  unfolding byte_def by (cases c) (simp add: of_char_def)

lemma b64_idx:
  "byte a div 4 < 64" "byte a mod 4 * 16 + byte b div 16 < 64"
  "byte b mod 16 * 4 + byte c div 64 < 64" "byte c mod 64 < 64"
  "byte b mod 16 * 4 < 64" "byte a mod 4 * 16 < 64"
  using byte_lt [of a] byte_lt [of b] byte_lt [of c] by arith+

lemma b64url_unpadded_no_pad: "CHR ''='' \<notin> set (b64url_unpadded s)"
proof (induction s rule: b64url_unpadded.induct)
  case (1 a b c rest)
  then show ?case by (simp add: b64url_char_not_pad b64url_char_not_pad [symmetric] b64_idx)
next
  case (2 a b)
  then show ?case by (simp add: b64url_char_not_pad b64url_char_not_pad [symmetric] b64_idx)
next
  case (3 a)
  then show ?case by (simp add: b64url_char_not_pad b64url_char_not_pad [symmetric] b64_idx)
next
  case 4
  then show ?case by simp
qed

lemma urlsafe_translate_pad: "urlsafe_translate CHR ''='' = CHR ''=''"
  by (simp add: urlsafe_translate_def)

text \<open>The padded encoding is the unpadded one followed by the padding.\<close>

lemma urlsafe_b64encode_padded:
  "urlsafe_b64encode s = b64url_unpadded s @ replicate (pad_length s) CHR ''=''"
proof (induction s rule: b64encode.induct)
  case (1 a b c rest)
  have "pad_length (a # b # c # rest) = pad_length rest" by (simp add: pad_length_def)
  with 1 show ?case by (simp add: urlsafe_b64encode_def b64_char_url b64_idx)
next
  case (2 a b)
  show ?case
    by (simp add: urlsafe_b64encode_def b64_char_url b64_idx pad_length_def urlsafe_translate_pad)
next
  case (3 a)
  show ?case
    by (simp add: urlsafe_b64encode_def b64_char_url b64_idx pad_length_def urlsafe_translate_pad
        numeral_2_eq_2)
next
  case 4
  show ?case by (simp add: urlsafe_b64encode_def pad_length_def)
qed

lemma rstrip_eq_padded: "CHR ''='' \<notin> set u \<Longrightarrow> rstrip_eq (u @ replicate k CHR ''='') = u"
proof -
  assume a: "CHR ''='' \<notin> set u"
  have "dropWhile (\<lambda>c. c = CHR ''='') (replicate k CHR ''='' @ rev u)
        = dropWhile (\<lambda>c. c = CHR ''='') (rev u)"
    by (induction k) simp_all
  also have "\<dots> = rev u" using a by (cases "rev u") auto
  finally show ?thesis by (simp add: rstrip_eq_def)
qed

lemma rstrip_urlsafe_b64encode: "rstrip_eq (urlsafe_b64encode s) = b64url_unpadded s"
  by (simp add: urlsafe_b64encode_padded rstrip_eq_padded b64url_unpadded_no_pad)

text \<open>Whatever the block size, the blocks are hashed as the whole file is.\<close>

lemma rehash_bytes_eq:
  assumes "0 < blocksize"
  shows "rehash_bytes H blocksize data
         = (''sha256='' @ b64url_unpadded (H data), str_nat (length data))"
  using assms
  by (simp add: rehash_bytes_def rehash_loop_concat concat_read_chunks hash_new_def
      hash_digest_def rstrip_urlsafe_b64encode)

text \<open>
  Claim C5: for every file, rehash returns \<open>sha256=\<close> followed by the unpadded URL-safe
  base64 encoding of the SHA-256 hash of the file's bytes, and the file's byte count in
  decimal; two invocations on files of identical bytes return the identical pair, whatever
  the paths, the permission bits and the rest of the state.
\<close>

theorem rehash_digest_of_bytes:
  assumes "read_bytes (files s) p = Some bytes" and "read_bytes (files s') p' = Some bytes"
  shows "\<exists>t t'. rehash env p s
            = Inr ((''sha256='' @ b64url_unpadded (sha256 env bytes), str_nat (length bytes)), t)
          \<and> rehash env p' s'
            = Inr ((''sha256='' @ b64url_unpadded (sha256 env bytes), str_nat (length bytes)), t')"
  using assms by (simp add: rehash_def effect_def rehash_bytes_eq default_blocksize_def)

theorem rehash_digest_of_bytes_witness:
  "read_bytes (files (initial_state example_env)) [''LICENSE''] = Some ''BSD''
   \<and> read_bytes [([''copy''], File ''BSD'' 493)] [''copy''] = Some ''BSD''
   \<and> (\<exists>t t'. rehash example_env [''LICENSE''] (initial_state example_env)
                = Inr ((''sha256=QlNE'', ''3''), t)
        \<and> rehash example_env [''copy''] \<lparr>files = [([''copy''], File ''BSD'' 493)], trace = []\<rparr>
            = Inr ((''sha256=QlNE'', ''3''), t'))"
proof -
  have a: "read_bytes (files (initial_state example_env)) [''LICENSE''] = Some ''BSD''"
    by (simp add: initial_state_def example_env_def read_bytes_def lookup_def)
  have b: "read_bytes (files \<lparr>files = [([''copy''], File ''BSD'' 493)], trace = []\<rparr>) [''copy'']
           = Some ''BSD''"
    by (simp add: read_bytes_def lookup_def)
  have c: "b64url_unpadded (sha256 example_env ''BSD'') = ''QlNE''"
    by (simp add: example_env_def) code_simp
  have d: "str_nat (length ''BSD'') = ''3''" by code_simp
  from rehash_digest_of_bytes [OF a b, of example_env] a b show ?thesis
    unfolding c d by simp
qed

lemma stepsI:
  assumes "\<And>s e s'. m s = Inl (e, s') \<Longrightarrow>
             \<exists>evs a. trace s' = trace s @ evs @ [(a, False)] \<and> list_all snd evs
                      \<and> list_all (\<lambda>ev. K (fst ev)) evs \<and> K a"
    and "\<And>s x s'. m s = Inr (x, s') \<Longrightarrow>
             \<exists>evs. trace s' = trace s @ evs \<and> list_all snd evs \<and> list_all (\<lambda>ev. K (fst ev)) evs"
  shows "steps K m"
  unfolding steps_def using assms by (auto split: sum.splits)

lemma steps_Inl:
  "steps K m \<Longrightarrow> m s = Inl (e, s') \<Longrightarrow>
     \<exists>evs a. trace s' = trace s @ evs @ [(a, False)] \<and> list_all snd evs
              \<and> list_all (\<lambda>ev. K (fst ev)) evs \<and> K a"
  unfolding steps_def by (drule spec [of _ s]) simp

lemma steps_Inr:
  "steps K m \<Longrightarrow> m s = Inr (x, s') \<Longrightarrow>
     \<exists>evs. trace s' = trace s @ evs \<and> list_all snd evs \<and> list_all (\<lambda>ev. K (fst ev)) evs"
  unfolding steps_def by (drule spec [of _ s]) simp

lemma steps_return: "steps K (return_prog x)"
  by (rule stepsI) (auto simp: return_prog_def)

lemma steps_get_files: "steps K get_files"
  by (rule stepsI) (auto simp: get_files_def)

lemma steps_effect: "K a \<Longrightarrow> steps K (effect a f)"
  by (rule stepsI) (auto simp: effect_def split: prod.splits sum.splits)

lemma steps_bind:
  assumes m: "steps K m" and f: "\<And>x. steps K (f x)"
  shows "steps K (bind_prog m f)"
proof (rule stepsI)
  fix s e s'
  assume a: "bind_prog m f s = Inl (e, s')"
  show "\<exists>evs a. trace s' = trace s @ evs @ [(a, False)] \<and> list_all snd evs
                 \<and> list_all (\<lambda>ev. K (fst ev)) evs \<and> K a"
  proof (cases "m s")
    case (Inl r)
    with a have "m s = Inl (e, s')" by (simp add: bind_prog_def)
    then show ?thesis by (rule steps_Inl [OF m])
  next
    case (Inr r)
    obtain x s1 where r: "r = (x, s1)" by (cases r)
    with Inr a have fx: "f x s1 = Inl (e, s')" by (simp add: bind_prog_def)
    from steps_Inr [OF m] Inr r obtain evs1 where
      1: "trace s1 = trace s @ evs1" "list_all snd evs1" "list_all (\<lambda>ev. K (fst ev)) evs1"
      by blast
    from steps_Inl [OF f fx] obtain evs2 a where
      2: "trace s' = trace s1 @ evs2 @ [(a, False)]" "list_all snd evs2"
         "list_all (\<lambda>ev. K (fst ev)) evs2" "K a"
      by blast
    from 1 2 have "trace s' = trace s @ (evs1 @ evs2) @ [(a, False)] \<and> list_all snd (evs1 @ evs2)
        \<and> list_all (\<lambda>ev. K (fst ev)) (evs1 @ evs2) \<and> K a"
      by simp
    then show ?thesis by blast
  qed
next
  fix s x s'
  assume a: "bind_prog m f s = Inr (x, s')"
  then obtain y s1 where ms: "m s = Inr (y, s1)" and fx: "f y s1 = Inr (x, s')"
    by (auto simp: bind_prog_def split: sum.splits)
  from steps_Inr [OF m ms] obtain evs1 where
    1: "trace s1 = trace s @ evs1" "list_all snd evs1" "list_all (\<lambda>ev. K (fst ev)) evs1"
    by blast
  from steps_Inr [OF f fx] obtain evs2 where
    2: "trace s' = trace s1 @ evs2" "list_all snd evs2" "list_all (\<lambda>ev. K (fst ev)) evs2"
    by blast
  from 1 2 have "trace s' = trace s @ (evs1 @ evs2) \<and> list_all snd (evs1 @ evs2)
      \<and> list_all (\<lambda>ev. K (fst ev)) (evs1 @ evs2)"
    by simp
  then show "\<exists>evs. trace s' = trace s @ evs \<and> list_all snd evs \<and> list_all (\<lambda>ev. K (fst ev)) evs"
    by blast
qed

lemma steps_for_each: "(\<And>x. steps K (body x)) \<Longrightarrow> steps K (for_each body xs)"
  by (induction xs) (auto intro!: steps_return steps_bind)

lemma steps_read_text: "K (ReadText p) \<Longrightarrow> steps K (read_text decode p)"
  unfolding read_text_def by (rule steps_effect)

lemma steps_mkdir: "K (Mkdir p) \<Longrightarrow> steps K (mkdir_exist_ok p)"
  unfolding mkdir_exist_ok_def by (rule steps_effect)

lemma steps_write_text: "K (WriteText p c) \<Longrightarrow> steps K (write_text m p c)"
  unfolding write_text_def by (rule steps_effect)

lemma steps_copy: "K (Copy src dst) \<Longrightarrow> steps K (copy m src dst)"
  unfolding copy_def by (rule steps_effect)

lemma steps_chmod: "K (Chmod p m) \<Longrightarrow> steps K (chmod p m)"
  unfolding chmod_def by (rule steps_effect)

lemma steps_gpg: "K (Gpg k g d) \<Longrightarrow> steps K (gpg env k g d)"
  unfolding gpg_def by (rule steps_effect)

lemma steps_shasum: "K (Shasum m) \<Longrightarrow> steps K (shasum env cwd m)"
  unfolding shasum_def by (rule steps_effect)

lemma steps_unpack: "K (Unpack z d) \<Longrightarrow> steps K (unpack_archive env z d)"
  unfolding unpack_archive_def by (rule steps_effect)

lemma steps_rehash: "K (Rehash p) \<Longrightarrow> steps K (rehash env p)"
  unfolding rehash_def by (rule steps_effect)

lemma steps_wget: "K (Wget url p) \<Longrightarrow> steps K (wget env url p)"
  by (rule stepsI) (auto simp: wget_def effect_def split: prod.splits sum.splits option.splits if_splits)

lemma steps_write_zip: "(\<And>ms. K (ZipWrite w ms)) \<Longrightarrow> steps K (write_zip env w tree)"
  by (rule stepsI) (auto simp: write_zip_def effect_def split: prod.splits sum.splits option.splits)

lemma steps_record_loop:
  "(\<And>p. K (Rehash p)) \<Longrightarrow> steps K (record_loop env tree fs acc)"
  by (induction fs arbitrary: acc) (auto intro!: steps_return steps_bind steps_rehash)

lemma steps_fetch_loop:
  "(\<And>u p. K (Wget u p)) \<Longrightarrow> steps K (fetch_loop env v tab acc)"
  by (induction tab arbitrary: acc) (auto intro!: steps_return steps_bind steps_wget)

lemma steps_assemble: "steps assembly_action (assemble env v msg item)"
  unfolding assemble_def Let_def
  by (intro steps_bind steps_mkdir steps_unpack steps_get_files steps_copy steps_chmod
      steps_write_text steps_record_loop steps_write_zip)
     (simp_all add: assembly_action_def)

lemma tr_hoareD_Inl: "tr_hoare P m Q E \<Longrightarrow> P (trace s) \<Longrightarrow> m s = Inl (e, s') \<Longrightarrow> E (trace s')"
  unfolding tr_hoare_def by (drule spec [of _ s]) simp

lemma tr_hoareD_Inr: "tr_hoare P m Q E \<Longrightarrow> P (trace s) \<Longrightarrow> m s = Inr (x, s') \<Longrightarrow> Q (trace s')"
  unfolding tr_hoare_def by (drule spec [of _ s]) simp

lemma tr_hoare_bind:
  assumes "tr_hoare P m R E" and "\<And>x. tr_hoare R (f x) Q E"
  shows "tr_hoare P (bind_prog m f) Q E"
  unfolding tr_hoare_def
proof (intro allI impI)
  fix s :: state assume p: "P (trace s)"
  show "case bind_prog m f s of Inl (e, s') \<Rightarrow> E (trace s') | Inr (x, s') \<Rightarrow> Q (trace s')"
  proof (cases "m s")
    case (Inl r)
    obtain e s' where "r = (e, s')" by (cases r)
    with Inl tr_hoareD_Inl [OF assms(1) p] show ?thesis by (simp add: bind_prog_def)
  next
    case (Inr r)
    obtain x s1 where r: "r = (x, s1)" by (cases r)
    with Inr tr_hoareD_Inr [OF assms(1) p] have "R (trace s1)" by simp
    with assms(2) [of x] have "case f x s1 of Inl (e, s') \<Rightarrow> E (trace s') | Inr (y, s') \<Rightarrow> Q (trace s')"
      unfolding tr_hoare_def by blast
    with Inr r show ?thesis by (simp add: bind_prog_def)
  qed
qed

lemma tr_hoare_effect:
  assumes "\<And>tr. P tr \<Longrightarrow> Q (tr @ [(a, True)]) \<and> E (tr @ [(a, False)])"
  shows "tr_hoare P (effect a f) Q E"
  unfolding tr_hoare_def using assms by (auto simp: effect_def split: prod.splits sum.splits)

lemma all_ok_steps:
  assumes "list_all snd evs" and "list_all (\<lambda>ev. K (fst ev)) evs" and "I tr"
    and "\<And>a tr. K a \<Longrightarrow> I tr \<Longrightarrow> I (tr @ [(a, True)])"
  shows "I (tr @ evs)"
  using assms(1,2)
proof (induction evs rule: rev_induct)
  case Nil
  then show ?case using assms(3) by simp
next
  case (snoc ev evs)
  then have "I (tr @ evs)" "K (fst ev)" "snd ev" by simp_all
  with assms(4) [of "fst ev" "tr @ evs"] have "I ((tr @ evs) @ [(fst ev, True)])" by blast
  with \<open>snd ev\<close> show ?case by (cases ev) simp
qed

lemma tr_hoare_steps:
  assumes st: "steps K m"
    and cl: "\<And>a tr. K a \<Longrightarrow> I tr \<Longrightarrow> I (tr @ [(a, True)]) \<and> E (tr @ [(a, False)])"
  shows "tr_hoare I m I E"
  unfolding tr_hoare_def
proof (intro allI impI)
  fix s :: state assume i: "I (trace s)"
  show "case m s of Inl (e, s') \<Rightarrow> E (trace s') | Inr (x, s') \<Rightarrow> I (trace s')"
  proof (cases "m s")
    case (Inl r)
    obtain e s' where r: "r = (e, s')" by (cases r)
    from steps_Inl [OF st] Inl r obtain evs a where
      t: "trace s' = trace s @ evs @ [(a, False)]" "list_all snd evs"
         "list_all (\<lambda>ev. K (fst ev)) evs" "K a"
      by blast
    have "I (trace s @ evs)"
      by (rule all_ok_steps [where K = K and I = I, OF t(2,3) i]) (use cl in blast)
    with cl [OF t(4)] have "E ((trace s @ evs) @ [(a, False)])" by blast
    with t(1) Inl r show ?thesis by simp
  next
    case (Inr r)
    obtain x s' where r: "r = (x, s')" by (cases r)
    from steps_Inr [OF st] Inr r obtain evs where
      t: "trace s' = trace s @ evs" "list_all snd evs" "list_all (\<lambda>ev. K (fst ev)) evs"
      by blast
    have "I (trace s @ evs)"
      by (rule all_ok_steps [where K = K and I = I, OF t(2,3) i]) (use cl in blast)
    with t(1) Inr r show ?thesis by simp
  qed
qed

lemma verified_order_snoc:
  "verified_order (tr @ [ev]) \<longleftrightarrow>
     verified_order tr
     \<and> (case fst ev of
          Shasum m \<Rightarrow> (\<exists>k g. (Gpg k g m, True) \<in> set tr)
        | Unpack z d \<Rightarrow> (\<exists>m. (Shasum m, True) \<in> set tr)
        | _ \<Rightarrow> True)"
  by (cases "fst ev") (simp_all add: verified_order_def)

lemma verified_order_prefix: "verified_order (xs @ ys) \<Longrightarrow> verified_order xs"
  by (induction ys rule: rev_induct) (simp_all add: verified_order_snoc flip: append_assoc)

lemma verified_order_shasum:
  assumes "verified_order tr" and "tr = xs @ (Shasum m, ok) # ys"
  shows "\<exists>k g. (Gpg k g m, True) \<in> set xs"
proof -
  from assms have "verified_order ((xs @ [(Shasum m, ok)]) @ ys)" by simp
  then have "verified_order (xs @ [(Shasum m, ok)])" by (rule verified_order_prefix)
  then show ?thesis by (simp add: verified_order_snoc)
qed

lemma verified_order_unpack:
  assumes "verified_order tr" and "tr = xs @ (Unpack z d, ok) # ys"
  shows "\<exists>m. (Shasum m, True) \<in> set xs"
proof -
  from assms have "verified_order ((xs @ [(Unpack z d, ok)]) @ ys)" by simp
  then have "verified_order (xs @ [(Unpack z d, ok)])" by (rule verified_order_prefix)
  then show ?thesis by (simp add: verified_order_snoc)
qed


lemma tr_hoare_weaken:
  assumes "tr_hoare P m Q E" and "\<And>tr. Q tr \<Longrightarrow> Q' tr"
  shows "tr_hoare P m Q' E"
  unfolding tr_hoare_def
proof (intro allI impI)
  fix s :: state assume p: "P (trace s)"
  show "case m s of Inl (e, s') \<Rightarrow> E (trace s') | Inr (x, s') \<Rightarrow> Q' (trace s')"
  proof (cases "m s")
    case (Inl r)
    obtain e s' where "r = (e, s')" by (cases r)
    with Inl tr_hoareD_Inl [OF assms(1) p] show ?thesis by simp
  next
    case (Inr r)
    obtain x s' where "r = (x, s')" by (cases r)
    with Inr tr_hoareD_Inr [OF assms(1) p] assms(2) show ?thesis by simp
  qed
qed

lemma tr_hoare_final:
  assumes "tr_hoare P m Q Q" and "P (trace s)"
  shows "Q (trace (final_state (m s)))"
proof (cases "m s")
  case (Inl r)
  obtain e s' where "r = (e, s')" by (cases r)
  with Inl tr_hoareD_Inl [OF assms] show ?thesis by (simp add: final_state_def)
next
  case (Inr r)
  obtain x s' where "r = (x, s')" by (cases r)
  with Inr tr_hoareD_Inr [OF assms] show ?thesis by (simp add: final_state_def)
qed

lemma verified_order_plain:
  "plain_action a \<Longrightarrow> verified_order (tr @ [(a, ok)]) = verified_order tr"
  by (cases a) (simp_all add: verified_order_snoc plain_action_def)

lemma tr_hoare_plain:
  assumes "steps plain_action m"
  shows "tr_hoare verified_order m verified_order verified_order"
  using assms by (rule tr_hoare_steps) (simp add: verified_order_plain)

lemma tr_hoare_plain_after:
  assumes "steps plain_action m"
  shows "tr_hoare (\<lambda>tr. verified_order tr \<and> ev \<in> set tr) m
           (\<lambda>tr. verified_order tr \<and> ev \<in> set tr) verified_order"
  using assms by (rule tr_hoare_steps) (simp add: verified_order_plain)

lemma tr_hoare_assembly:
  assumes "steps assembly_action m"
  shows "tr_hoare (\<lambda>tr. verified_order tr \<and> (\<exists>c. (Shasum c, True) \<in> set tr)) m
           (\<lambda>tr. verified_order tr \<and> (\<exists>c. (Shasum c, True) \<in> set tr)) verified_order"
  using assms
proof (rule tr_hoare_steps)
  fix a tr
  assume "assembly_action a" and "verified_order tr \<and> (\<exists>c. (Shasum c, True) \<in> set tr)"
  then show "(verified_order (tr @ [(a, True)]) \<and> (\<exists>c. (Shasum c, True) \<in> set (tr @ [(a, True)])))
      \<and> verified_order (tr @ [(a, False)])"
    by (cases a) (auto simp: verified_order_snoc assembly_action_def)
qed

lemma script_verified_order:
  "tr_hoare verified_order (script env v) verified_order verified_order"
  unfolding script_def
proof (rule tr_hoare_bind [where R = verified_order], goal_cases)
  case 1
  show ?case by (rule tr_hoare_plain) (simp add: steps_read_text plain_action_def)
next
  case (2 readme)
  show ?case
  proof (rule tr_hoare_bind [where R = verified_order], goal_cases)
    case 1
    show ?case by (rule tr_hoare_plain) (simp add: steps_mkdir plain_action_def)
  next
    case (2 u1)
    show ?case
    proof (rule tr_hoare_bind [where R = verified_order], goal_cases)
      case 1
      show ?case by (rule tr_hoare_plain) (simp add: steps_wget plain_action_def)
    next
      case (2 u2)
      show ?case
      proof (rule tr_hoare_bind [where R = verified_order], goal_cases)
        case 1
        show ?case by (rule tr_hoare_plain) (simp add: steps_wget plain_action_def)
      next
        case (2 u3)
        let ?G = "(Gpg HASHICORP_GPG (terraform_sigs v) (terraform_sha256 v), True)"
        show ?case
        proof (rule tr_hoare_bind [where R = "\<lambda>tr. verified_order tr \<and> ?G \<in> set tr"], goal_cases)
          case 1
          show ?case unfolding gpg_def
            by (rule tr_hoare_effect) (simp add: verified_order_plain plain_action_def)
        next
          case (2 u4)
          show ?case
          proof (rule tr_hoare_bind [where R = "\<lambda>tr. verified_order tr \<and> ?G \<in> set tr"], goal_cases)
            case 1
            show ?case by (rule tr_hoare_plain_after) (simp add: steps_fetch_loop plain_action_def)
          next
            case (2 platform_zip)
            show ?case
            proof (rule tr_hoare_bind
                [where R = "\<lambda>tr. verified_order tr \<and> (\<exists>c. (Shasum c, True) \<in> set tr)"], goal_cases)
              case 1
              show ?case unfolding shasum_def
                by (rule tr_hoare_effect) (auto simp: verified_order_snoc)
            next
              case (2 u5)
              have "tr_hoare (\<lambda>tr. verified_order tr \<and> (\<exists>c. (Shasum c, True) \<in> set tr))
                      (for_each (assemble env v (PACKAGE_METADATA_MSG v readme)) platform_zip)
                      (\<lambda>tr. verified_order tr \<and> (\<exists>c. (Shasum c, True) \<in> set tr)) verified_order"
                by (rule tr_hoare_assembly) (rule steps_for_each, rule steps_assemble)
              then show ?case by (rule tr_hoare_weaken) simp
            qed
          qed
        qed
      qed
    qed
  qed
qed

lemma main_verified_order: "verified_order (trace (final_state (main env)))"
proof (cases "parse (GIT_TAG (environ_GIT_TAG env))")
  case None
  then show ?thesis
    by (simp add: main_def final_state_def initial_state_def verified_order_def)
next
  case (Some v)
  have "verified_order (trace (initial_state env))"
    by (simp add: initial_state_def verified_order_def)
  with script_verified_order have "verified_order (trace (final_state (script env v (initial_state env))))"
    by (rule tr_hoare_final)
  with Some show ?thesis by (simp add: main_def)
qed

text \<open>
  Claim C3: in every run, whatever the tools answer, a checksum check of the manifest is
  preceded by a successful signature verification of that same manifest, and an unpacking
  of an archive is preceded by a successful checksum check; so no archive is unpacked
  unless the signature and then the checksums have been verified.
\<close>

theorem signature_then_checksums_then_unpack:
  "(\<forall>xs m ok ys. trace (final_state (main env)) = xs @ (Shasum m, ok) # ys
        \<longrightarrow> (\<exists>k g. (Gpg k g m, True) \<in> set xs))
   \<and> (\<forall>xs z d ok ys. trace (final_state (main env)) = xs @ (Unpack z d, ok) # ys
        \<longrightarrow> (\<exists>m. (Shasum m, True) \<in> set xs))"
  using verified_order_shasum [OF main_verified_order] verified_order_unpack [OF main_verified_order]
  by blast

lemma steps_weaken:
  assumes "steps K m" and "\<And>a. K a \<Longrightarrow> K' a"
  shows "steps K' m"
proof (rule stepsI)
  fix s e s' assume "m s = Inl (e, s')"
  from steps_Inl [OF assms(1) this] obtain evs a where
    t: "trace s' = trace s @ evs @ [(a, False)]" "list_all snd evs"
       "list_all (\<lambda>ev. K (fst ev)) evs" "K a"
    by blast
  from t(3) assms(2) have "list_all (\<lambda>ev. K' (fst ev)) evs" by (simp add: list_all_iff)
  with t assms(2) show "\<exists>evs a. trace s' = trace s @ evs @ [(a, False)] \<and> list_all snd evs
                 \<and> list_all (\<lambda>ev. K' (fst ev)) evs \<and> K' a"
    by blast
next
  fix s x s' assume "m s = Inr (x, s')"
  from steps_Inr [OF assms(1) this] obtain evs where
    t: "trace s' = trace s @ evs" "list_all snd evs" "list_all (\<lambda>ev. K (fst ev)) evs"
    by blast
  from t(3) assms(2) have "list_all (\<lambda>ev. K' (fst ev)) evs" by (simp add: list_all_iff)
  with t show "\<exists>evs. trace s' = trace s @ evs \<and> list_all snd evs \<and> list_all (\<lambda>ev. K' (fst ev)) evs"
    by blast
qed

lemma steps_weaken_assemble: "steps (\<lambda>a. True) (assemble env v msg item)"
  by (rule steps_weaken [OF steps_assemble]) simp

lemma steps_script: "steps (\<lambda>a. True) (script env v)"
  unfolding script_def
  by (intro steps_bind steps_read_text steps_mkdir steps_wget steps_gpg steps_fetch_loop
      steps_shasum steps_for_each steps_weaken_assemble TrueI)

text \<open>The trace of a run: successful calls, then at most one failed call, the last.\<close>

lemma main_trace_shape:
  "(\<exists>st. main env = Inl (ParseError, st) \<and> trace st = [] \<and> parse (GIT_TAG (environ_GIT_TAG env)) = None)
   \<or> (\<exists>e st evs a. main env = Inl (e, st) \<and> trace st = evs @ [(a, False)] \<and> list_all snd evs)
   \<or> (\<exists>st. main env = Inr ((), st) \<and> list_all snd (trace st))"
proof (cases "parse (GIT_TAG (environ_GIT_TAG env))")
  case None
  then show ?thesis by (simp add: main_def initial_state_def)
next
  case (Some v)
  show ?thesis
  proof (cases "script env v (initial_state env)")
    case (Inl r)
    obtain e st where r: "r = (e, st)" by (cases r)
    from steps_Inl [OF steps_script] Inl r obtain evs a where
      "trace st = trace (initial_state env) @ evs @ [(a, False)]" "list_all snd evs"
      by blast
    with Some Inl r show ?thesis by (simp add: main_def initial_state_def)
  next
    case (Inr r)
    obtain st where r: "r = ((), st)" by (cases r) simp
    from steps_Inr [OF steps_script] Inr r obtain evs where
      "trace st = trace (initial_state env) @ evs" "list_all snd evs"
      by blast
    with Some Inr r show ?thesis by (simp add: main_def initial_state_def)
  qed
qed

lemma failed_event_last:
  assumes "evs @ [(a', False)] = xs @ (a, False) # ys" and "list_all snd evs"
  shows "ys = [] \<and> xs = evs"
proof (cases ys rule: rev_cases)
  case Nil
  with assms show ?thesis by simp
next
  case (snoc ys' y)
  with assms(1) have "evs = xs @ (a, False) # ys'" by simp
  with assms(2) show ?thesis by simp
qed


lemma bind_prog_Inr:
  "bind_prog m f s = Inr r \<Longrightarrow> \<exists>x s1. m s = Inr (x, s1) \<and> f x s1 = Inr r"
  by (auto simp: bind_prog_def split: sum.splits)

lemma tr_hoare_any: "tr_hoare P m (\<lambda>tr. True) (\<lambda>tr. True)"
  unfolding tr_hoare_def by (auto split: sum.splits)

lemma write_zip_event:
  "tr_hoare (\<lambda>tr. True) (write_zip env w tree) (\<lambda>tr. \<exists>ms. (ZipWrite w ms, True) \<in> set tr) (\<lambda>tr. True)"
  unfolding tr_hoare_def
  by (auto simp: write_zip_def effect_def split: option.splits sum.splits prod.splits)

lemma assemble_writes_wheel_hoare:
  "tr_hoare (\<lambda>tr. True) (assemble env v msg item)
     (\<lambda>tr. \<exists>ms. (ZipWrite (wheel_file v (fst item)) ms, True) \<in> set tr) (\<lambda>tr. True)"
  unfolding assemble_def Let_def
  by (intro tr_hoare_bind [where R = "\<lambda>tr. True"] tr_hoare_any write_zip_event)

lemma assemble_writes_wheel:
  assumes "assemble env v msg item s = Inr (u, s')"
  shows "\<exists>ms. (ZipWrite (wheel_file v (fst item)) ms, True) \<in> set (trace s')"
  using tr_hoareD_Inr [OF assemble_writes_wheel_hoare _ assms] by simp

lemma for_each_all:
  assumes st: "\<And>x. steps K (body x)"
    and q: "\<And>x s u s'. body x s = Inr (u, s') \<Longrightarrow> Q x (trace s')"
    and mono: "\<And>x tr evs. Q x tr \<Longrightarrow> Q x (tr @ evs)"
  shows "for_each body xs s = Inr (u, s') \<Longrightarrow> \<forall>x \<in> set xs. Q x (trace s')"
proof (induction xs arbitrary: s)
  case Nil
  then show ?case by simp
next
  case (Cons x xs)
  from Cons.prems obtain y s1 where b: "body x s = Inr (y, s1)" and r: "for_each body xs s1 = Inr (u, s')"
    by (auto dest: bind_prog_Inr)
  from steps_Inr [OF steps_for_each [of K body, OF st] r] obtain evs where "trace s' = trace s1 @ evs"
    by blast
  with q [OF b] mono have "Q x (trace s')" by simp
  with Cons.IH [OF r] show ?case by simp
qed

lemma fetch_loop_keys:
  "fetch_loop env v tab acc s = Inr (pz, s') \<Longrightarrow> fst ` set pz = fst ` set acc \<union> fst ` set tab"
proof (induction tab arbitrary: acc s)
  case Nil
  then show ?case by (simp add: return_prog_def)
next
  case (Cons row tab)
  obtain platform arch where row: "row = (platform, arch)" by (cases row)
  from Cons.prems row obtain y s1 where
    "fetch_loop env v tab (AList.update platform (terraform_zip v arch) acc) s1 = Inr (pz, s')"
    by (auto dest: bind_prog_Inr)
  from Cons.IH [OF this] row show ?case by (auto simp: dom_update)
qed

lemma script_writes_all_wheels:
  assumes "script env v s = Inr (u, s')"
  shows "\<forall>platform \<in> fst ` set PY_PLATFORM_TF_ARCH.
           \<exists>ms. (ZipWrite (wheel_file v platform) ms, True) \<in> set (trace s')"
proof -
  from assms obtain readme s1 where "read_text (decode_text env) README s = Inr (readme, s1)"
    and 1: "bind_prog (mkdir_exist_ok BUILD_DIR) (\<lambda>_.
     bind_prog (wget env (TERRAFORM_SHA256_URL (TERRAFORM_VERSION v)) (terraform_sha256 v)) (\<lambda>_.
     bind_prog (wget env (TERRAFORM_SIGS_URL (TERRAFORM_VERSION v)) (terraform_sigs v)) (\<lambda>_.
     bind_prog (gpg env HASHICORP_GPG (terraform_sigs v) (terraform_sha256 v)) (\<lambda>_.
     bind_prog (fetch_loop env v PY_PLATFORM_TF_ARCH []) (\<lambda>platform_zip.
     bind_prog (shasum env BUILD_DIR (terraform_sha256 v)) (\<lambda>_.
     for_each (assemble env v (PACKAGE_METADATA_MSG v readme)) platform_zip)))))) s1 = Inr (u, s')"
    unfolding script_def by (blast dest: bind_prog_Inr)
  from 1 obtain s2 s3 s4 s5 s6 s7 platform_zip where
    f: "fetch_loop env v PY_PLATFORM_TF_ARCH [] s5 = Inr (platform_zip, s6)"
    and l: "for_each (assemble env v (PACKAGE_METADATA_MSG v readme)) platform_zip s7 = Inr (u, s')"
    by (blast dest: bind_prog_Inr)
  have "\<forall>item \<in> set platform_zip. \<exists>ms. (ZipWrite (wheel_file v (fst item)) ms, True) \<in> set (trace s')"
    using l
  proof (rule for_each_all [where K = "\<lambda>a. True", rotated 3])
    show "steps (\<lambda>a. True) (assemble env v (PACKAGE_METADATA_MSG v readme) x)" for x
      by (rule steps_weaken_assemble)
    show "\<exists>ms. (ZipWrite (wheel_file v (fst x)) ms, True) \<in> set (trace s')"
      if "assemble env v (PACKAGE_METADATA_MSG v readme) x s = Inr (u, s')" for x s u s'
      using that by (rule assemble_writes_wheel)
    show "\<exists>ms. (ZipWrite (wheel_file v (fst x)) ms, True) \<in> set (tr @ evs)"
      if "\<exists>ms. (ZipWrite (wheel_file v (fst x)) ms, True) \<in> set tr" for x tr evs
      using that by auto
  qed
  moreover from fetch_loop_keys [OF f] have "fst ` set platform_zip = fst ` set PY_PLATFORM_TF_ARCH"
    by simp
  ultimately show ?thesis by (metis (no_types, lifting) imageE)
qed


text \<open>
  Claim C7: no failure is caught. An operation that fails is the last event of the run,
  every operation before it has succeeded, and the exit status is not zero; a non-zero
  exit status comes from a tag that does not parse or from a failed last operation; and
  the exit status is zero only when every operation has succeeded and the wheel file of
  every platform of the table has been written.
\<close>

theorem failure_aborts_run:
  "(\<forall>xs a ys. trace (final_state (main env)) = xs @ (a, False) # ys
        \<longrightarrow> ys = [] \<and> list_all snd xs \<and> exit_status (main env) \<noteq> 0)
   \<and> (exit_status (main env) \<noteq> 0
        \<longrightarrow> (parse (GIT_TAG (environ_GIT_TAG env)) = None \<and> trace (final_state (main env)) = [])
            \<or> (\<exists>xs a. trace (final_state (main env)) = xs @ [(a, False)]))
   \<and> (exit_status (main env) = 0
        \<longrightarrow> list_all snd (trace (final_state (main env)))
            \<and> (\<exists>v. parse (GIT_TAG (environ_GIT_TAG env)) = Some v
                 \<and> (\<forall>platform \<in> fst ` set PY_PLATFORM_TF_ARCH.
                        \<exists>ms. (ZipWrite (wheel_file v platform) ms, True)
                               \<in> set (trace (final_state (main env))))))"
proof -
  from main_trace_shape [of env] consider
    (noparse) st where "main env = Inl (ParseError, st)" "trace st = []"
      "parse (GIT_TAG (environ_GIT_TAG env)) = None"
    | (failed) e st evs a where "main env = Inl (e, st)" "trace st = evs @ [(a, False)]"
      "list_all snd evs"
    | (finished) st where "main env = Inr ((), st)" "list_all snd (trace st)"
    by blast
  then show ?thesis
  proof cases
    case noparse
    then show ?thesis by (simp add: final_state_def exit_status_def)
  next
    case failed
    have "ys = [] \<and> list_all snd xs" if "trace st = xs @ (a', False) # ys" for xs a' ys
    proof -
      from that failed(2) have "evs @ [(a, False)] = xs @ (a', False) # ys" by simp
      from failed_event_last [OF this failed(3)] failed(3) show ?thesis by simp
    qed
    with failed show ?thesis
      by (auto simp: final_state_def exit_status_def)
  next
    case finished
    have 1: "\<forall>xs a ys. trace st \<noteq> xs @ (a, False) # ys"
    proof (intro allI notI)
      fix xs a ys assume "trace st = xs @ (a, False) # ys"
      with finished(2) show False by simp
    qed
    from finished(1) obtain v where v: "parse (GIT_TAG (environ_GIT_TAG env)) = Some v"
      and s: "script env v (initial_state env) = Inr ((), st)"
      by (auto simp: main_def split: option.splits)
    from script_writes_all_wheels [OF s] v finished 1 show ?thesis
      by (simp add: final_state_def exit_status_def)
  qed
qed

lemma effect_Inr:
  "effect a f s = Inr (x, s') \<longleftrightarrow>
     (\<exists>fs'. f (files s) = (Inr x, fs') \<and> s' = \<lparr>files = fs', trace = trace s @ [(a, True)]\<rparr>)"
  by (auto simp: effect_def split: prod.splits sum.splits)

lemma lookup_update: "lookup (AList.update k v fs) q = (if q = k then Some v else lookup fs q)"
  by (simp add: lookup_def update_conv')

lemma put_file_Some:
  "put_file mode0 p c fs = Some fs' \<Longrightarrow>
     p \<noteq> [] \<and> \<not> is_dir fs p \<and> is_dir fs (butlast p)
     \<and> (\<exists>m. fs' = AList.update p (File c m) fs)"
  by (auto simp: put_file_def split: if_splits)

lemma mkdir_Inr:
  assumes "mkdir_exist_ok p s = Inr (u, s')"
  shows "trace s' = trace s @ [(Mkdir p, True)]"
    and "files s' = (if is_dir (files s) p then files s else AList.update p Dir (files s))"
    and "is_dir (files s') p"
  using assms
  by (auto simp: mkdir_exist_ok_def effect_Inr is_dir_def lookup_update split: if_splits)

lemma write_text_Inr:
  assumes "write_text mode0 p c s = Inr (u, s')"
  shows "trace s' = trace s @ [(WriteText p c, True)]"
    and "\<exists>m. files s' = AList.update p (File c m) (files s)"
    and "\<not> is_dir (files s) p"
  using assms
  by (auto simp: write_text_def effect_Inr split: option.splits dest: put_file_Some)

lemma copy_Inr:
  assumes "copy mode0 src dst s = Inr (t, s')"
  shows "trace s' = trace s @ [(Copy src dst, True)]"
    and "t = copy_target (files s) src dst"
    and "\<exists>c m. lookup (files s) src = Some (File c m) \<and> files s' = AList.update t (File c m) (files s)"
  using assms
  by (auto simp: copy_def effect_Inr Let_def
      split: option.splits node.splits if_splits dest!: put_file_Some)


lemma chmod_Inr:
  assumes "chmod p mode s = Inr (u, s')"
  shows "trace s' = trace s @ [(Chmod p mode, True)]"
    and "files s' = (case lookup (files s) p of Some (File c m) \<Rightarrow> AList.update p (File c mode) (files s)
                     | _ \<Rightarrow> files s)"
  using assms
  by (auto simp: chmod_def effect_Inr split: option.splits node.splits if_splits)


lemma grown_refl: "grown A fs fs"
  by (simp add: grown_def)

lemma grown_trans: "grown A fs fs1 \<Longrightarrow> grown A fs1 fs2 \<Longrightarrow> grown A fs fs2"
  unfolding grown_def by (intro conjI) (blast, blast, simp)

lemma grown_mono: "grown A fs fs' \<Longrightarrow> A \<subseteq> B \<Longrightarrow> grown B fs fs'"
  unfolding grown_def by (intro conjI) (blast, blast, blast)

lemma grown_update: "k \<in> A \<Longrightarrow> grown A fs (AList.update k n fs)"
  unfolding grown_def dom_update
  by (intro conjI) (blast, simp add: distinct_update, auto simp: lookup_update)

lemma grownD:
  assumes "grown A fs fs'"
  shows "fst ` set fs' \<subseteq> fst ` set fs \<union> A"
    and "distinct (map fst fs) \<Longrightarrow> distinct (map fst fs')"
    and "k \<notin> A \<Longrightarrow> lookup fs' k = lookup fs k"
  using assms unfolding grown_def by blast+

lemma growsI:
  assumes "\<And>s. grown A (files s) (files (final_state (m s)))"
  shows "grows A m"
  unfolding grows_def using assms by blast

lemma growsD_final: "grows A m \<Longrightarrow> grown A (files s) (files (final_state (m s)))"
  unfolding grows_def by blast

lemma growsD: "grows A m \<Longrightarrow> m s = Inr (x, s') \<Longrightarrow> grown A (files s) (files s')"
  using growsD_final [of A m s] by (simp add: final_state_def)

lemma growsD_Inl: "grows A m \<Longrightarrow> m s = Inl (e, s') \<Longrightarrow> grown A (files s) (files s')"
  using growsD_final [of A m s] by (simp add: final_state_def)

lemma grows_return: "grows A (return_prog x)"
  by (rule growsI) (simp add: return_prog_def final_state_def grown_refl)

lemma grows_get_files: "grows A get_files"
  by (rule growsI) (simp add: get_files_def final_state_def grown_refl)

lemma grows_bind:
  assumes "grows A m" and "\<And>x. grows A (f x)"
  shows "grows A (bind_prog m f)"
proof (rule growsI)
  fix s
  show "grown A (files s) (files (final_state (bind_prog m f s)))"
  proof (cases "m s")
    case (Inl r)
    then have "final_state (bind_prog m f s) = final_state (m s)"
      by (simp add: bind_prog_def final_state_def)
    with growsD_final [OF assms(1), of s] show ?thesis by simp
  next
    case (Inr r)
    obtain y s1 where r: "r = (y, s1)" by (cases r)
    with Inr have "final_state (bind_prog m f s) = final_state (f y s1)"
      by (simp add: bind_prog_def)
    moreover from Inr r have "grown A (files s) (files s1)" by (simp add: growsD [OF assms(1)])
    moreover have "grown A (files s1) (files (final_state (f y s1)))"
      by (rule growsD_final [OF assms(2)])
    ultimately show ?thesis by (simp add: grown_trans)
  qed
qed

lemma grows_mono: "grows A m \<Longrightarrow> A \<subseteq> B \<Longrightarrow> grows B m"
  unfolding grows_def by (blast intro: grown_mono)

lemma grows_for_each: "(\<And>x. grows A (body x)) \<Longrightarrow> grows A (for_each body xs)"
  by (induction xs) (auto intro!: grows_return grows_bind)

lemma touches_same: "touches A fs fs"
  by (simp add: touches_def)

lemma touches_new: "k \<in> A \<Longrightarrow> touches A fs (AList.update k n fs)"
  unfolding touches_def by blast

lemma touches_grown: "touches A fs fs' \<Longrightarrow> grown A fs fs'"
  unfolding touches_def by (auto intro: grown_refl grown_update)

lemma final_state_effect: "files (final_state (effect a f s)) = snd (f (files s))"
  by (simp add: effect_def final_state_def split: prod.splits sum.splits)

lemma grows_effect:
  assumes "\<And>fs. grown A fs (snd (f fs))"
  shows "grows A (effect a f)"
  by (rule growsI) (simp add: final_state_effect assms)

lemma put_file_touches:
  "p \<in> A \<Longrightarrow> touches A fs (case put_file mode0 p c fs of None \<Rightarrow> fs | Some fs' \<Rightarrow> fs')"
  by (auto simp: put_file_def touches_same touches_new)

lemma grows_read_text: "grows A (read_text decode p)"
  unfolding read_text_def by (rule grows_effect) (simp add: grown_refl)

lemma grows_mkdir: "p \<in> A \<Longrightarrow> grows A (mkdir_exist_ok p)"
  unfolding mkdir_exist_ok_def by (rule grows_effect) (simp add: grown_refl grown_update)

lemma grows_write_text: "p \<in> A \<Longrightarrow> grows A (write_text mode0 p c)"
  unfolding write_text_def
  by (rule grows_effect) (auto simp: grown_refl grown_update split: option.splits dest!: put_file_Some)

lemma grows_copy: "dst \<in> A \<Longrightarrow> dst @ [last src] \<in> A \<Longrightarrow> grows A (copy mode0 src dst)"
  unfolding copy_def
  by (rule grows_effect)
     (auto simp: grown_refl grown_update Let_def copy_target_def
        split: option.splits node.splits dest!: put_file_Some)

lemma grows_chmod: "p \<in> A \<Longrightarrow> grows A (chmod p mode)"
  unfolding chmod_def
  by (rule grows_effect) (auto simp: grown_refl grown_update split: option.splits node.splits)

lemma grows_gpg: "grows A (gpg env k g d)"
  unfolding gpg_def
  by (rule grows_effect) (auto simp: grown_refl split: option.splits)

lemma grows_shasum: "grows A (shasum env cwd m)"
  unfolding shasum_def
  by (rule grows_effect) (auto simp: grown_refl split: option.splits)

lemma grows_rehash: "grows A (rehash env p)"
  unfolding rehash_def
  by (rule grows_effect) (auto simp: grown_refl split: option.splits)

lemma grows_wget: "p \<in> A \<Longrightarrow> grows A (wget env url p)"
  by (rule growsI)
     (auto simp: wget_def final_state_effect grown_refl grown_update
        split: option.splits prod.splits dest!: put_file_Some)

lemma write_zip_Inr:
  assumes "write_zip env w tree s = Inr (u, s')"
  shows "\<exists>m opened. put_file (create_mode env) w [] (files s) = Some opened
           \<and> trace s' = trace s @ [(ZipWrite w (zip_members env opened tree), True)]
           \<and> files s' = AList.update w (File (zip_bytes env (zip_members env opened tree)) m) (files s)"
  using assms
  by (auto simp: write_zip_def effect_Inr effect_def split: option.splits dest!: put_file_Some)

lemma grows_write_zip: "w \<in> A \<Longrightarrow> grows A (write_zip env w tree)"
  by (rule growsI)
     (auto simp: write_zip_def final_state_effect grown_refl grown_update
        split: option.splits dest!: put_file_Some)

lemma grows_record_loop: "grows A (record_loop env tree fs acc)"
  by (induction fs arbitrary: acc) (auto intro!: grows_return grows_bind grows_rehash)

lemma grows_fetch_loop:
  "(\<And>arch. terraform_zip v arch \<in> A) \<Longrightarrow> grows A (fetch_loop env v tab acc)"
  by (induction tab arbitrary: acc) (auto intro!: grows_return grows_bind grows_wget)

lemma makedirs_grown: "makedirs p fs = Some fs' \<Longrightarrow> grown {q. prefix q p} fs fs'"
proof (induction p fs arbitrary: fs' rule: makedirs.induct)
  case (1 fs)
  then show ?case by (simp add: grown_refl makedirs.simps)
next
  case (2 c cs fs)
  show ?case
  proof (cases "is_dir fs (c # cs)")
    case True
    with 2(2) show ?thesis by (simp add: grown_refl makedirs.simps(2) [of c cs])
  next
    case False
    from 2(2) have "(if path_exists fs (c # cs) then None
         else (case makedirs (butlast (c # cs)) fs of None \<Rightarrow> None
               | Some fs1 \<Rightarrow> Some (AList.update (c # cs) Dir fs1))) = Some fs'"
      using False by (simp only: makedirs.simps(2) [of c cs] Let_def if_False)
    then obtain fs1 where m: "makedirs (butlast (c # cs)) fs = Some fs1"
      and f: "fs' = AList.update (c # cs) Dir fs1" and ne: "\<not> path_exists fs (c # cs)"
      by (cases "path_exists fs (c # cs)"; cases "makedirs (butlast (c # cs)) fs") simp_all
    from "2.IH" [OF refl False ne m] have "grown {q. prefix q (butlast (c # cs))} fs fs1" .
    moreover have "{q. prefix q (butlast (c # cs))} \<subseteq> {q. prefix q (c # cs)}"
      using prefixeq_butlast [of "c # cs"] prefix_order.order_trans by blast
    ultimately have "grown {q. prefix q (c # cs)} fs fs1"
      by (rule grown_mono)
    moreover have "grown {q. prefix q (c # cs)} fs1 fs'"
      unfolding f by (rule grown_update) simp
    ultimately show ?thesis by (rule grown_trans)
  qed
qed

lemma related_target: "member_target d name \<in> related d"
  by (simp add: related_def member_target_def)

lemma prefix_related: "prefix q t \<Longrightarrow> prefix d t \<Longrightarrow> q \<in> related d"
  unfolding related_def by (auto dest: prefix_same_cases)

lemma related_member_dir: "prefix q (member_dir d name) \<Longrightarrow> q \<in> related d"
proof -
  assume a: "prefix q (member_dir d name)"
  have "prefix (member_dir d name) (member_target d name)"
    by (auto simp: member_dir_def Let_def prefixeq_butlast)
  with a have "prefix q (member_target d name)" by (rule prefix_order.order_trans)
  moreover have "prefix d (member_target d name)" by (simp add: member_target_def)
  ultimately show ?thesis by (rule prefix_related)
qed

lemma extract_members_grown:
  "extract_members mode0 d ms fs = (ok, fs') \<Longrightarrow> grown (related d) fs fs'"
proof (induction ms arbitrary: fs)
  case Nil
  then show ?case by (simp add: grown_refl)
next
  case (Cons member ms)
  obtain name bytes where member: "member = (name, bytes)" by (cases member)
  show ?case
  proof (cases "skipped_member name")
    case True
    with Cons member show ?thesis by simp
  next
    case False
    show ?thesis
    proof (cases "makedirs (member_dir d name) fs")
      case None
      with Cons.prems member False show ?thesis by (simp add: grown_refl)
    next
      case (Some fs1)
      from makedirs_grown [OF Some] have 1: "grown (related d) fs fs1"
        by (rule grown_mono) (auto intro: related_member_dir)
      show ?thesis
      proof (cases "name \<noteq> [] \<and> last name = CHR ''/''")
        case True
        with Cons.prems member False Some
        have "extract_members mode0 d ms fs1 = (ok, fs')" by simp
        from 1 Cons.IH [OF this] show ?thesis by (rule grown_trans)
      next
        case nodir: False
        show ?thesis
        proof (cases "put_file mode0 (member_target d name) bytes fs1")
          case None
          with Cons.prems member False Some nodir 1 show ?thesis by auto
        next
          case (Some fs2)
          from put_file_Some [OF Some] obtain m where
            "fs2 = AList.update (member_target d name) (File bytes m) fs1" by blast
          then have 2: "grown (related d) fs1 fs2"
            by (simp add: grown_update related_target)
          from Cons.prems member False \<open>makedirs (member_dir d name) fs = Some fs1\<close> nodir Some
          have "extract_members mode0 d ms fs2 = (ok, fs')" by auto
          from grown_trans [OF 1 2] Cons.IH [OF this] show ?thesis by (rule grown_trans)
        qed
      qed
    qed
  qed
qed

lemma grows_unpack: "grows (related d) (unpack_archive env z d)"
  unfolding unpack_archive_def
  by (rule grows_effect)
     (auto simp: grown_refl split: option.splits prod.splits bool.splits
        dest: extract_members_grown)
lemma split_on_none: "c \<notin> set b \<Longrightarrow> split_on c b = [b]"
  by (induction b) auto

lemma split_on_last: "c \<notin> set b \<Longrightarrow> split_on c (a @ c # b) = split_on c a @ [b]"
proof (induction a)
  case Nil
  then show ?case by (simp add: split_on_none)
next
  case (Cons x a)
  then show ?case
    by (cases "split_on c a") (auto simp: split_on_nonempty)
qed

lemma path_name_last: "CHR ''/'' \<notin> set b \<Longrightarrow> b \<noteq> [] \<Longrightarrow> path_name (a @ CHR ''/'' # b) = b"
  by (simp add: path_name_def split_on_last)

lemma digit_char_is_digit: "d < 10 \<Longrightarrow> is_digit (digit_char d)"
proof -
  have "\<forall>d < 10. is_digit (''0123456789'' ! d)" unfolding is_digit_def by code_simp
  then show "d < 10 \<Longrightarrow> is_digit (digit_char d)" by (simp add: digit_char_def)
qed

lemma str_nat_digits: "str_nat n \<noteq> [] \<and> list_all is_digit (str_nat n)"
proof (induction n rule: str_nat.induct)
  case (1 n)
  show ?case
  proof (cases "n < 10")
    case True
    then show ?thesis by (simp add: str_nat.simps [of n] digit_char_is_digit)
  next
    case False
    with 1 show ?thesis by (simp add: str_nat.simps [of n] digit_char_is_digit)
  qed
qed

lemma str_int_chars:
  "str_int i \<noteq> [] \<and> list_all (\<lambda>c. is_digit c \<or> c = CHR ''-'') (str_int i)"
  using str_nat_digits [of "nat i"] str_nat_digits [of "nat (- i)"]
  by (auto simp: str_int_def list_all_iff)

lemma TERRAFORM_VERSION_chars:
  "TERRAFORM_VERSION v \<noteq> []
   \<and> list_all (\<lambda>c. is_digit c \<or> c = CHR ''-'' \<or> c = CHR ''.'') (TERRAFORM_VERSION v)
   \<and> (is_digit (hd (TERRAFORM_VERSION v)) \<or> hd (TERRAFORM_VERSION v) = CHR ''-'')"
  using str_int_chars [of "major v"] str_int_chars [of "minor v"] str_int_chars [of "patch v"]
  by (cases "str_int (major v)") (auto simp: terraform_version_formula list_all_iff)

lemma no_slash_version: "CHR ''/'' \<notin> set (TERRAFORM_VERSION v)"
proof
  assume "CHR ''/'' \<in> set (TERRAFORM_VERSION v)"
  with TERRAFORM_VERSION_chars [of v] have "is_digit CHR ''/'' \<or> CHR ''/'' = CHR ''-'' \<or> CHR ''/'' = CHR ''.''"
    by (auto simp: list_all_iff)
  then show False by (simp add: is_digit_def)
qed

lemma terraform_zip_eq:
  assumes "CHR ''/'' \<notin> set arch"
  shows "terraform_zip v arch = [''build'', ''terraform_'' @ TERRAFORM_VERSION v @ ''_'' @ arch @ ''.zip'']"
proof -
  have "path_name ((''https://releases.hashicorp.com/terraform/'' @ TERRAFORM_VERSION v)
          @ CHR ''/'' # (''terraform_'' @ TERRAFORM_VERSION v @ ''_'' @ arch @ ''.zip''))
        = ''terraform_'' @ TERRAFORM_VERSION v @ ''_'' @ arch @ ''.zip''"
    by (rule path_name_last) (use assms no_slash_version [of v] in auto)
  then show ?thesis
    by (simp add: terraform_zip_def terraform_zip_url_def TERRAFORM_URL_def BUILD_DIR_def)
qed

lemma strip_suffix_zip: "x \<noteq> [] \<Longrightarrow> strip_suffix (x @ ''.zip'') = x"
  by (simp add: strip_suffix_def Let_def)

lemma terraform_src_eq:
  assumes "CHR ''/'' \<notin> set arch"
  shows "with_suffix_empty (terraform_zip v arch)
         = [''build'', ''terraform_'' @ TERRAFORM_VERSION v @ ''_'' @ arch]"
  using strip_suffix_zip [of "''terraform_'' @ TERRAFORM_VERSION v @ ''_'' @ arch"]
  by (simp add: terraform_zip_eq [OF assms] with_suffix_empty_def)

lemma PACKAGE_WHEELNAME_eq: "PACKAGE_WHEELNAME v = ''terraform_binary_wheel-'' @ PACKAGE_VERSION v"
proof -
  have "normalize (PStr PACKAGE_NAME) = ''terraform_binary_wheel''" by code_simp
  then show ?thesis by (simp add: PACKAGE_WHEELNAME_def)
qed

lemma wheel_name_eq:
  "wheel_name v platform = ''terraform_binary_wheel-'' @ PACKAGE_VERSION v @ ''-py2.py3-none-'' @ platform"
  by (simp add: wheel_name_def PACKAGE_WHEELNAME_eq PYTHON_TAGS_def ABI_TAGS_def)

lemma wheel_tree_eq: "wheel_tree v platform = [''build'', wheel_name v platform]"
  by (simp add: wheel_tree_def BUILD_DIR_def)

lemma src_not_wheel:
  "''terraform_'' @ TERRAFORM_VERSION v @ rest \<noteq> wheel_name v platform"
proof
  assume "''terraform_'' @ TERRAFORM_VERSION v @ rest = wheel_name v platform"
  then have "TERRAFORM_VERSION v @ rest = ''binary_wheel-'' @ PACKAGE_VERSION v @ ''-py2.py3-none-'' @ platform"
    by (simp add: wheel_name_eq)
  then have "hd (TERRAFORM_VERSION v) = CHR ''b''"
    using TERRAFORM_VERSION_chars [of v] by (cases "TERRAFORM_VERSION v") auto
  with TERRAFORM_VERSION_chars [of v] show False by (auto simp: is_digit_def)
qed

lemma get_files_Inr: "get_files s = Inr (x, s') \<longleftrightarrow> x = files s \<and> s' = s"
  by (auto simp: get_files_def)


lemma bind_prog_InrE:
  assumes "bind_prog m f s = Inr r"
  obtains x s1 where "m s = Inr (x, s1)" "f x s1 = Inr r"
  using assms by (auto simp: bind_prog_def split: sum.splits)

lemma assemble_Inr:
  assumes "assemble env v msg (platform, archive) s = Inr (u, s')"
  obtains s1 s2 s3 s4 s5 s6 s7 s8 s9 s10 s11 s12 t6 t8 entries where
    "mkdir_exist_ok (wheel_tree v platform) s = Inr ((), s1)"
    "unpack_archive env archive (with_suffix_empty archive) s1 = Inr ((), s2)"
    "mkdir_exist_ok (wheel_data v platform) s2 = Inr ((), s3)"
    "mkdir_exist_ok (wheel_scripts v platform) s3 = Inr ((), s4)"
    "mkdir_exist_ok (wheel_info v platform) s4 = Inr ((), s5)"
    "copy (create_mode env) (terraform_src_binary (files s5) (with_suffix_empty archive))
       (wheel_scripts v platform @ [last (terraform_src_binary (files s5) (with_suffix_empty archive))]) s5
       = Inr (t6, s6)"
    "chmod (wheel_scripts v platform @ [last (terraform_src_binary (files s5) (with_suffix_empty archive))])
       493 s6 = Inr ((), s7)"
    "copy (create_mode env) LICENSE (wheel_info v platform) s7 = Inr (t8, s8)"
    "write_text (create_mode env) (wheel_info v platform @ [''METADATA'']) (as_string env msg) s8
       = Inr ((), s9)"
    "write_text (create_mode env) (wheel_info v platform @ [''WHEEL''])
       (as_string env (wheel_metadata_msg platform)) s9 = Inr ((), s10)"
    "record_loop env (wheel_tree v platform)
       (glob_files (glob_order env) (files s10) (wheel_tree v platform)) [] s10 = Inr (entries, s11)"
    "write_text (create_mode env) (wheel_record v platform)
       (concat (wheel_record_lines
          (AList.update (relative_to (wheel_tree v platform) (wheel_record v platform)) ([], []) entries)))
       s11 = Inr ((), s12)"
    "write_zip env (wheel_file v platform) (wheel_tree v platform) s12 = Inr ((), s')"
  using assms
  unfolding assemble_def Let_def terraform_src_binary_def [symmetric] fst_conv snd_conv
  by (elim bind_prog_InrE) (simp add: get_files_Inr)

lemma lookup_None_iff: "lookup fs k = None \<longleftrightarrow> k \<notin> fst ` set fs"
  by (simp add: lookup_def map_of_eq_None_iff)

lemma below_append [simp]: "below tree (tree @ xs) \<longleftrightarrow> xs \<noteq> []"
  by (auto simp: below_def strict_prefix_def)

lemma not_below_self [simp]: "\<not> below tree tree"
  by (simp add: below_def)

lemma keys_below_empty_lookup:
  "keys_below tree fs = [] \<Longrightarrow> below tree k \<Longrightarrow> lookup fs k = None"
  by (auto simp: keys_below_def lookup_None_iff filter_empty_conv)

lemma keys_below_update:
  "keys_below tree (AList.update k n fs)
   = (if lookup fs k = None \<and> below tree k then keys_below tree fs @ [k] else keys_below tree fs)"
  by (auto simp: keys_below_def update_keys lookup_None_iff)

lemma keys_below_grown:
  assumes "grown A fs fs'" and "\<forall>q \<in> A. \<not> below tree q" and "keys_below tree fs = []"
  shows "keys_below tree fs' = []"
proof -
  from assms(1) have "fst ` set fs' \<subseteq> fst ` set fs \<union> A" by (simp add: grown_def)
  moreover from assms(3) have "\<forall>k \<in> fst ` set fs. \<not> below tree k"
    by (auto simp: keys_below_def filter_empty_conv)
  ultimately have "\<forall>k \<in> fst ` set fs'. \<not> below tree k" using assms(2) by blast
  then show ?thesis by (auto simp: keys_below_def filter_empty_conv)
qed

lemma not_below_related:
  assumes "length src = length tree" and "src \<noteq> tree" and "q \<in> related src"
  shows "\<not> below tree q"
proof
  assume b: "below tree q"
  then have t: "prefix tree q" and l: "length tree < length q"
    by (auto simp: below_def strict_prefix_def prefix_def)
  from assms(3) consider "prefix q src" | "prefix src q" by (auto simp: related_def)
  then show False
  proof cases
    case 1
    then have "length q \<le> length src" by (rule prefix_length_le)
    with l assms(1) show False by simp
  next
    case 2
    with t have "prefix src tree \<or> prefix tree src" by (auto dest: prefix_same_cases)
    with assms(1,2) show False by (auto simp: prefix_def)
  qed
qed

lemma is_dir_lookup: "k \<noteq> [] \<Longrightarrow> is_dir fs k \<longleftrightarrow> lookup fs k = Some Dir"
  by (simp add: is_dir_def)

lemma path_exists_lookup: "k \<noteq> [] \<Longrightarrow> path_exists fs k \<longleftrightarrow> lookup fs k \<noteq> None"
  by (simp add: path_exists_def)

lemma is_file_lookup: "is_file fs k \<longleftrightarrow> (\<exists>c m. lookup fs k = Some (File c m))"
  by (auto simp: is_file_def split: option.splits node.splits)

lemma read_bytes_lookup: "lookup fs k = Some (File c m) \<Longrightarrow> read_bytes fs k = Some c"
  by (simp add: read_bytes_def)

lemma glob_files_eq:
  "glob_files order fs tree = filter (is_file fs) (order (keys_below tree fs))"
  by (simp add: glob_files_def keys_below_def)

lemma fold_update_fresh:
  "distinct (map g xs) \<Longrightarrow> g ` set xs \<inter> fst ` set acc = {}
   \<Longrightarrow> fold (\<lambda>x. AList.update (g x) (h x)) xs acc = acc @ map (\<lambda>x. (g x, h x)) xs"
proof (induction xs arbitrary: acc)
  case Nil
  then show ?case by simp
next
  case (Cons x xs)
  from Cons.prems have fresh: "g x \<notin> fst ` set acc" by auto
  then have u: "AList.update (g x) (h x) acc = acc @ [(g x, h x)]"
    by (induction acc) auto
  from Cons.prems have "distinct (map g xs)" "g ` set xs \<inter> fst ` set (acc @ [(g x, h x)]) = {}"
    by auto
  from Cons.IH [OF this] u show ?case by simp
qed

lemma record_loop_Inr:
  "record_loop env tree fl acc s = Inr (entries, s') \<Longrightarrow>
     files s' = files s
     \<and> list_all (\<lambda>f. read_bytes (files s) f \<noteq> None) fl
     \<and> entries = fold (\<lambda>f. AList.update (relative_to tree f)
                       (rehash_bytes (sha256 env) default_blocksize (the (read_bytes (files s) f))))
                   fl acc
     \<and> (\<exists>evs. trace s' = trace s @ evs \<and> list_all (\<lambda>ev. \<exists>p. ev = (Rehash p, True)) evs)"
proof (induction fl arbitrary: acc s)
  case Nil
  then show ?case by (simp add: return_prog_def)
next
  case (Cons f fl)
  from Cons.prems obtain hl s1 where r: "rehash env f s = Inr (hl, s1)"
    and l: "record_loop env tree fl (AList.update (relative_to tree f) hl acc) s1 = Inr (entries, s')"
    by (auto elim: bind_prog_InrE)
  from r obtain bytes where b: "read_bytes (files s) f = Some bytes"
    and hl: "hl = rehash_bytes (sha256 env) default_blocksize bytes"
    and s1: "files s1 = files s" "trace s1 = trace s @ [(Rehash f, True)]"
    by (auto simp: rehash_def effect_Inr split: option.splits)
  from Cons.IH [OF l] b hl s1 show ?case by auto
qed

lemma update_fresh_append: "k \<notin> fst ` set al \<Longrightarrow> AList.update k v al = al @ [(k, v)]"
  by (induction al) auto

lemma unpack_Inr_trace:
  "unpack_archive env z d s = Inr (u, s') \<Longrightarrow> trace s' = trace s @ [(Unpack z d, True)]"
  by (auto simp: unpack_archive_def effect_Inr)

lemma mset_filter_perm:
  assumes "\<And>ps. mset (order ps) = mset ps"
  shows "mset (filter P (order xs)) = filter_mset P (mset xs)"
  by (simp add: assms)

lemma relative_to_append: "relative_to tree (tree @ xs) = join ''/'' xs"
  by (simp add: relative_to_def)

lemma rehash_bytes_line:
  "(case rehash_bytes H default_blocksize bytes of (digest, len) \<Rightarrow> join '','' [k, digest, len] @ [CHR 0x0A])
   = record_line H k bytes"
  by (simp add: rehash_bytes_eq default_blocksize_def record_line_def)

lemma assemble_tree:
  assumes run: "assemble env v msg (platform, archive) s = Inr (u, s')"
    and fresh: "keys_below (wheel_tree v platform) (files s) = []"
    and src: "length (with_suffix_empty archive) = 2"
      "with_suffix_empty archive \<noteq> wheel_tree v platform"
    and perm: "\<And>ps. mset (glob_order env ps) = mset ps"
  shows "\<exists>ms binary bin_bytes license_bytes lines.
           (binary = ''terraform'' \<or> binary = ''terraform.exe'')
           \<and> mset ms = wheel_members env v msg platform binary bin_bytes license_bytes (concat lines)
           \<and> mset lines = wheel_lines env v msg platform binary bin_bytes license_bytes
           \<and> lookup (files s') (wheel_scripts v platform @ [binary]) = Some (File bin_bytes 493)
           \<and> (\<exists>evs. trace s' = trace s @ evs @ [(ZipWrite (wheel_file v platform) ms, True)]
                 \<and> list_all (\<lambda>ev. case fst ev of ZipWrite w m \<Rightarrow> False | _ \<Rightarrow> True) evs)"
proof -
  define tree where "tree = wheel_tree v platform"
  define W where "W = PACKAGE_WHEELNAME v"
  have tree2: "length tree = 2" by (simp add: tree_def wheel_tree_eq)
  have paths: "wheel_tree v platform = tree"
    "wheel_data v platform = tree @ [W @ ''.data'']"
    "wheel_scripts v platform = tree @ [W @ ''.data'', ''scripts'']"
    "wheel_info v platform = tree @ [W @ ''.dist-info'']"
    "wheel_record v platform = tree @ [W @ ''.dist-info'', ''RECORD'']"
    by (simp_all add: tree_def W_def wheel_data_def wheel_scripts_def wheel_info_def wheel_record_def)
  from run obtain s1 s2 s3 s4 s5 s6 s7 s8 s9 s10 s11 s12 t6 t8 entries
    where 1: "mkdir_exist_ok (wheel_tree v platform) s = Inr ((), s1)"
    and 2: "unpack_archive env archive (with_suffix_empty archive) s1 = Inr ((), s2)"
    and 3: "mkdir_exist_ok (wheel_data v platform) s2 = Inr ((), s3)"
    and 4: "mkdir_exist_ok (wheel_scripts v platform) s3 = Inr ((), s4)"
    and 5: "mkdir_exist_ok (wheel_info v platform) s4 = Inr ((), s5)"
    and 6: "copy (create_mode env) (terraform_src_binary (files s5) (with_suffix_empty archive))
       (wheel_scripts v platform @ [last (terraform_src_binary (files s5) (with_suffix_empty archive))]) s5
       = Inr (t6, s6)"
    and 7: "chmod (wheel_scripts v platform @ [last (terraform_src_binary (files s5) (with_suffix_empty archive))])
       493 s6 = Inr ((), s7)"
    and 8: "copy (create_mode env) LICENSE (wheel_info v platform) s7 = Inr (t8, s8)"
    and 9: "write_text (create_mode env) (wheel_info v platform @ [''METADATA'']) (as_string env msg) s8
       = Inr ((), s9)"
    and 10: "write_text (create_mode env) (wheel_info v platform @ [''WHEEL''])
       (as_string env (wheel_metadata_msg platform)) s9 = Inr ((), s10)"
    and 11: "record_loop env (wheel_tree v platform)
       (glob_files (glob_order env) (files s10) (wheel_tree v platform)) [] s10 = Inr (entries, s11)"
    and 12: "write_text (create_mode env) (wheel_record v platform)
       (concat (wheel_record_lines
          (AList.update (relative_to (wheel_tree v platform) (wheel_record v platform)) ([], []) entries)))
       s11 = Inr ((), s12)"
    and 13: "write_zip env (wheel_file v platform) (wheel_tree v platform) s12 = Inr ((), s')"
    by (rule assemble_Inr)
  \<comment> \<open>the tree stays empty until its directories are made\<close>
  have kb1: "keys_below tree (files s1) = []"
    using mkdir_Inr(2) [OF 1] fresh by (simp add: paths keys_below_update)
  have "grown (related (with_suffix_empty archive)) (files s1) (files s2)"
    using grows_unpack 2 by (rule growsD)
  moreover have "\<forall>q \<in> related (with_suffix_empty archive). \<not> below tree q"
    using src tree2 by (auto simp: paths dest: not_below_related [rotated 2])
  ultimately have kb2: "keys_below tree (files s2) = []"
    using kb1 by (rule keys_below_grown)
  define F where "F = files s2"
  have none: "lookup F (tree @ xs) = None" if "xs \<noteq> []" for xs
    using kb2 that unfolding F_def by (simp add: keys_below_empty_lookup)
  have f3: "files s3 = AList.update (tree @ [W @ ''.data'']) Dir F"
    using mkdir_Inr(2) [OF 3] by (simp add: paths is_dir_lookup none F_def [symmetric])
  have f4: "files s4 = AList.update (tree @ [W @ ''.data'', ''scripts'']) Dir (files s3)"
    using mkdir_Inr(2) [OF 4] by (simp add: paths is_dir_lookup f3 lookup_update none)
  have f5: "files s5 = AList.update (tree @ [W @ ''.dist-info'']) Dir (files s4)"
    using mkdir_Inr(2) [OF 5] by (simp add: paths is_dir_lookup f3 f4 lookup_update none)
  define name where "name = last (terraform_src_binary (files s5) (with_suffix_empty archive))"
  have name: "name = ''terraform'' \<or> name = ''terraform.exe''"
    by (simp add: name_def terraform_src_binary_def)
  define bin where "bin = tree @ [W @ ''.data'', ''scripts'', name]"
  have t6: "t6 = bin"
    using copy_Inr(2) [OF 6]
    by (simp add: copy_target_def paths is_dir_lookup f3 f4 f5 lookup_update none bin_def name_def)
  from copy_Inr(3) [OF 6] t6 obtain c m where
    f6: "files s6 = AList.update bin (File c m) (files s5)" by blast
  have f7: "files s7 = AList.update bin (File c 493) (files s6)"
    using chmod_Inr(2) [OF 7] by (simp add: paths f6 lookup_update bin_def name_def)
  define lic where "lic = tree @ [W @ ''.dist-info'', ''LICENSE'']"
  have t8: "t8 = lic"
    using copy_Inr(2) [OF 8]
    by (simp add: copy_target_def paths is_dir_lookup f3 f4 f5 f6 f7 lookup_update bin_def lic_def
        LICENSE_def)
  from copy_Inr(3) [OF 8] t8 obtain cl ml where
    f8: "files s8 = AList.update lic (File cl ml) (files s7)" by blast
  from write_text_Inr(2) [OF 9] obtain m9 where
    f9: "files s9 = AList.update (tree @ [W @ ''.dist-info'', ''METADATA''])
           (File (as_string env msg) m9) (files s8)"
    by (auto simp: paths)
  from write_text_Inr(2) [OF 10] obtain m10 where
    f10: "files s10 = AList.update (tree @ [W @ ''.dist-info'', ''WHEEL''])
           (File (as_string env (wheel_metadata_msg platform)) m10) (files s9)"
    by (auto simp: paths)
  note fs = f3 f4 f5 f6 f7 f8 f9 f10 bin_def lic_def
  have kb10: "keys_below tree (files s10)
      = [tree @ [W @ ''.data''], tree @ [W @ ''.data'', ''scripts''], tree @ [W @ ''.dist-info''],
         bin, lic, tree @ [W @ ''.dist-info'', ''METADATA''], tree @ [W @ ''.dist-info'', ''WHEEL'']]"
    using kb2 by (simp add: fs keys_below_update lookup_update none F_def [symmetric])
  \<comment> \<open>the files the walk finds when RECORD is built\<close>
  define meta where "meta = tree @ [W @ ''.dist-info'', ''METADATA'']"
  define wheel where "wheel = tree @ [W @ ''.dist-info'', ''WHEEL'']"
  define fl where "fl = glob_files (glob_order env) (files s10) tree"
  have look10: "lookup (files s10) bin = Some (File c 493)" "lookup (files s10) lic = Some (File cl ml)"
    "lookup (files s10) meta = Some (File (as_string env msg) m9)"
    "lookup (files s10) wheel = Some (File (as_string env (wheel_metadata_msg platform)) m10)"
    "lookup (files s10) (tree @ [W @ ''.data'']) = Some Dir"
    "lookup (files s10) (tree @ [W @ ''.data'', ''scripts'']) = Some Dir"
    "lookup (files s10) (tree @ [W @ ''.dist-info'']) = Some Dir"
    by (simp_all add: fs lookup_update meta_def wheel_def)
  have fl: "mset fl = {#bin, lic, meta, wheel#}"
    unfolding fl_def glob_files_eq kb10 mset_filter_perm [of "glob_order env", OF perm]
    by (simp add: is_file_lookup look10 meta_def [symmetric] wheel_def [symmetric])
  define g where "g = relative_to tree"
  have g: "g bin = W @ ''.data/scripts/'' @ name" "g lic = W @ ''.dist-info/LICENSE''"
    "g meta = W @ ''.dist-info/METADATA''" "g wheel = W @ ''.dist-info/WHEEL''"
    "g (tree @ [W @ ''.dist-info'', ''RECORD'']) = W @ ''.dist-info/RECORD''"
    by (simp_all add: g_def bin_def lic_def meta_def wheel_def relative_to_append)
  have "mset (map g fl) = {#g bin, g lic, g meta, g wheel#}"
    by (simp add: fl)
  then have gfl: "mset (map g fl) = mset [g bin, g lic, g meta, g wheel]" by simp
  have dg: "distinct (map g fl)"
    unfolding mset_eq_imp_distinct_iff [OF gfl] by (simp add: g)
  have gset: "g ` set fl = {g bin, g lic, g meta, g wheel}"
    using mset_eq_setD [OF gfl] by simp
  define h where "h = (\<lambda>f. rehash_bytes (sha256 env) default_blocksize (the (read_bytes (files s10) f)))"
  from record_loop_Inr [OF 11] have f11: "files s11 = files s10"
    and e: "entries = fold (\<lambda>f. AList.update (g f) (h f)) fl []"
    and tr11: "\<exists>evs. trace s11 = trace s10 @ evs \<and> list_all (\<lambda>ev. \<exists>p. ev = (Rehash p, True)) evs"
    by (simp_all add: paths fl_def g_def h_def)
  have entries: "entries = map (\<lambda>f. (g f, h f)) fl"
    unfolding e using fold_update_fresh [OF dg, of "[]" h] by simp
  have rec_fresh: "W @ ''.dist-info/RECORD'' \<notin> fst ` set entries"
    unfolding entries by (simp add: image_image gset g)
  define lines where "lines = wheel_record_lines
      (AList.update (relative_to (wheel_tree v platform) (wheel_record v platform)) ([], []) entries)"
  have lines: "lines = map (\<lambda>f. record_line (sha256 env) (g f) (the (read_bytes (files s10) f))) fl
      @ [W @ ''.dist-info/RECORD'' @ '',,'' @ [CHR 0x0A]]"
    unfolding lines_def paths g_def [symmetric] g(5) update_fresh_append [OF rec_fresh]
    by (simp add: wheel_record_lines_def entries h_def rehash_bytes_eq default_blocksize_def
        record_line_def comp_def)
  have "mset lines = image_mset (\<lambda>f. record_line (sha256 env) (g f) (the (read_bytes (files s10) f)))
      (mset fl) + {#W @ ''.dist-info/RECORD'' @ '',,'' @ [CHR 0x0A]#}"
    unfolding lines by simp
  then have mlines: "mset lines = wheel_lines env v msg platform name c cl"
    unfolding fl by (simp add: wheel_lines_def g read_bytes_lookup look10 W_def)
  \<comment> \<open>RECORD is written, the archive is opened, and the walk finds five files\<close>
  define recf where "recf = tree @ [W @ ''.dist-info'', ''RECORD'']"
  from write_text_Inr(2) [OF 12] obtain m12 where
    f12: "files s12 = AList.update recf (File (concat lines) m12) (files s10)"
    by (auto simp: paths lines_def f11 recf_def)
  from write_zip_Inr [OF 13] obtain mz opened where
    put: "put_file (create_mode env) (wheel_file v platform) [] (files s12) = Some opened"
    and tr: "trace s' = trace s12 @ [(ZipWrite (wheel_file v platform) (zip_members env opened tree), True)]"
    and fin: "files s' = AList.update (wheel_file v platform)
        (File (zip_bytes env (zip_members env opened tree)) mz) (files s12)"
    by (auto simp: paths)
  from put_file_Some [OF put] obtain mo where
    opened: "opened = AList.update (wheel_file v platform) (File [] mo) (files s12)" by blast
  have wf2: "length (wheel_file v platform) = 2" by (simp add: wheel_file_def BUILD_DIR_def)
  have wf_ne: "wheel_file v platform \<noteq> tree @ xs" if "xs \<noteq> []" for xs
    using wf2 tree2 that by (cases xs) auto
  have wf_out: "\<not> below tree (wheel_file v platform)"
    using wf2 tree2 by (auto simp: below_def strict_prefix_def prefix_def)
  have look: "lookup opened bin = Some (File c 493)" "lookup opened lic = Some (File cl ml)"
    "lookup opened meta = Some (File (as_string env msg) m9)"
    "lookup opened wheel = Some (File (as_string env (wheel_metadata_msg platform)) m10)"
    "lookup opened recf = Some (File (concat lines) m12)"
    "lookup opened (tree @ [W @ ''.data'']) = Some Dir"
    "lookup opened (tree @ [W @ ''.data'', ''scripts'']) = Some Dir"
    "lookup opened (tree @ [W @ ''.dist-info'']) = Some Dir"
    using look10
    by (simp_all add: opened f12 lookup_update wf_ne [symmetric] bin_def lic_def meta_def wheel_def
        recf_def)
  have "lookup (files s10) recf = None"
    by (simp add: fs lookup_update none recf_def F_def [symmetric])
  then have kbo: "keys_below tree opened = keys_below tree (files s10) @ [recf]"
    by (simp add: opened f12 keys_below_update wf_out recf_def)
  define ms where "ms = zip_members env opened tree"
  have gl: "mset (glob_files (glob_order env) opened tree) = {#bin, lic, meta, wheel, recf#}"
    unfolding glob_files_eq kbo kb10 mset_filter_perm [of "glob_order env", OF perm]
    by (simp add: is_file_lookup look meta_def [symmetric] wheel_def [symmetric])
  have "mset ms = image_mset (\<lambda>f. (g f, case read_bytes opened f of Some c \<Rightarrow> c | None \<Rightarrow> []))
      (mset (glob_files (glob_order env) opened tree))"
    unfolding ms_def zip_members_def g_def by simp
  then have "mset ms = image_mset (\<lambda>f. (g f, case read_bytes opened f of Some c \<Rightarrow> c | None \<Rightarrow> []))
      {#bin, lic, meta, wheel, recf#}"
    unfolding gl .
  then have mms: "mset ms = wheel_members env v msg platform name c cl (concat lines)"
    by (simp add: wheel_members_def g read_bytes_lookup look W_def g(5) [unfolded recf_def [symmetric]])
  have binf: "lookup (files s') (wheel_scripts v platform @ [name]) = Some (File c 493)"
    using look10(1)
    by (simp add: fin f12 lookup_update paths wf_ne [symmetric] bin_def recf_def)
  \<comment> \<open>the events of the iteration\<close>
  from tr11 obtain evs11 where
    evs11: "trace s11 = trace s10 @ evs11" "list_all (\<lambda>ev. \<exists>p. ev = (Rehash p, True)) evs11"
    by blast
  have nz: "list_all (\<lambda>ev. case fst ev of ZipWrite w m \<Rightarrow> False | _ \<Rightarrow> True) evs11"
    using evs11(2) by (auto simp: list_all_iff)
  have "trace s12 = trace s @ [(Mkdir (wheel_tree v platform), True),
      (Unpack archive (with_suffix_empty archive), True),
      (Mkdir (wheel_data v platform), True), (Mkdir (wheel_scripts v platform), True),
      (Mkdir (wheel_info v platform), True),
      (Copy (terraform_src_binary (files s5) (with_suffix_empty archive))
         (wheel_scripts v platform @ [last (terraform_src_binary (files s5) (with_suffix_empty archive))]), True),
      (Chmod (wheel_scripts v platform @ [last (terraform_src_binary (files s5) (with_suffix_empty archive))]) 493, True),
      (Copy LICENSE (wheel_info v platform), True),
      (WriteText (wheel_info v platform @ [''METADATA'']) (as_string env msg), True),
      (WriteText (wheel_info v platform @ [''WHEEL'']) (as_string env (wheel_metadata_msg platform)), True)]
      @ evs11 @ [(WriteText (wheel_record v platform) (concat lines), True)]"
    using mkdir_Inr(1) [OF 1] unpack_Inr_trace [OF 2] mkdir_Inr(1) [OF 3] mkdir_Inr(1) [OF 4]
      mkdir_Inr(1) [OF 5] copy_Inr(1) [OF 6] chmod_Inr(1) [OF 7] copy_Inr(1) [OF 8]
      write_text_Inr(1) [OF 9] write_text_Inr(1) [OF 10] evs11(1) write_text_Inr(1) [OF 12]
    by (simp add: lines_def)
  with tr nz have "\<exists>evs. trace s' = trace s @ evs @ [(ZipWrite (wheel_file v platform) ms, True)]
      \<and> list_all (\<lambda>ev. case fst ev of ZipWrite w m \<Rightarrow> False | _ \<Rightarrow> True) evs"
    by (simp add: ms_def)
  with name mms mlines binf show ?thesis by blast
qed

lemma assemble_tree_ok:
  assumes "assemble env v msg (platform, archive) s = Inr (u, s')"
    and "keys_below (wheel_tree v platform) (files s) = []"
    and "length (with_suffix_empty archive) = 2"
    and "with_suffix_empty archive \<noteq> wheel_tree v platform"
    and "\<And>ps. mset (glob_order env ps) = mset ps"
  shows "\<exists>ms binary bin_bytes.
           wheel_ok env v msg platform ms
           \<and> (binary = ''terraform'' \<or> binary = ''terraform.exe'')
           \<and> lookup (files s') (wheel_scripts v platform @ [binary]) = Some (File bin_bytes 493)
           \<and> (\<exists>evs. trace s' = trace s @ evs @ [(ZipWrite (wheel_file v platform) ms, True)]
                 \<and> list_all (\<lambda>ev. case fst ev of ZipWrite w m \<Rightarrow> False | _ \<Rightarrow> True) evs)"
  using assemble_tree [OF assms] unfolding wheel_ok_def by blast

lemma grows_assemble:
  "grows (touched v platform archive) (assemble env v msg (platform, archive))"
  unfolding assemble_def Let_def fst_conv snd_conv
  by (intro grows_bind grows_mkdir grows_get_files grows_copy grows_chmod grows_write_text
      grows_record_loop grows_write_zip grows_mono [OF grows_unpack])
     (auto simp: touched_def wheel_data_def wheel_scripts_def wheel_info_def wheel_record_def)

lemma wheel_event_iff: "is_wheel_event ev \<longleftrightarrow> (\<exists>w ms. ev = (ZipWrite w ms, True))"
  by (cases ev; cases "fst ev") (auto simp: is_wheel_event_def)

lemma tr_hoare_other:
  assumes "steps other_action m"
  shows "tr_hoare (\<lambda>tr. filter is_wheel_event tr = X) m (\<lambda>tr. filter is_wheel_event tr = X)
           (\<lambda>tr. filter is_wheel_event tr = X)"
  using assms
proof (rule tr_hoare_steps)
  fix a tr assume "other_action a" "filter is_wheel_event tr = X"
  then show "filter is_wheel_event (tr @ [(a, True)]) = X \<and> filter is_wheel_event (tr @ [(a, False)]) = X"
    by (cases a) (simp_all add: is_wheel_event_def other_action_def)
qed

lemma write_zip_failure:
  "tr_hoare (\<lambda>tr. filter is_wheel_event tr = X) (write_zip env w tree) (\<lambda>tr. True)
     (\<lambda>tr. filter is_wheel_event tr = X)"
  unfolding tr_hoare_def
  by (auto simp: write_zip_def effect_def is_wheel_event_def split: option.splits sum.splits prod.splits)

lemma assemble_failure_wheels:
  "tr_hoare (\<lambda>tr. filter is_wheel_event tr = X) (assemble env v msg item) (\<lambda>tr. True)
     (\<lambda>tr. filter is_wheel_event tr = X)"
  unfolding assemble_def Let_def
  by (intro tr_hoare_bind [where R = "\<lambda>tr. filter is_wheel_event tr = X"] write_zip_failure
      tr_hoare_other steps_mkdir steps_unpack steps_get_files steps_copy steps_chmod
      steps_write_text steps_record_loop)
     (simp_all add: other_action_def)

lemma wheel_name_inj: "wheel_name v p = wheel_name v q \<Longrightarrow> p = q"
  by (simp add: wheel_name_eq)

lemma wheel_paths_length:
  "length (wheel_tree v p) = 2" "length (wheel_file v p) = 2" "length (wheel_scripts v p @ [b]) = 5"
  by (simp_all add: wheel_tree_eq wheel_file_def BUILD_DIR_def wheel_scripts_def wheel_data_def)

lemma prefix_same_length: "prefix a k \<Longrightarrow> prefix b k \<Longrightarrow> length a = length b \<Longrightarrow> a = b"
  by (auto simp: prefix_def append_eq_append_conv)

lemma not_below_touched:
  assumes "p' \<noteq> p" and "CHR ''/'' \<notin> set arch" and "k \<in> touched v p (terraform_zip v arch)"
  shows "\<not> below (wheel_tree v p') k"
proof -
  let ?src = "with_suffix_empty (terraform_zip v arch)"
  have src: "?src = [''build'', ''terraform_'' @ TERRAFORM_VERSION v @ ''_'' @ arch]"
    by (rule terraform_src_eq [OF assms(2)])
  from assms(3) consider "k \<in> related ?src" | "prefix (wheel_tree v p) k" | "k = wheel_file v p"
    by (auto simp: touched_def)
  then show ?thesis
  proof cases
    case 1
    have ne: "?src \<noteq> wheel_tree v p'" using src_not_wheel [of v "''_'' @ arch" p']
      by (simp add: src wheel_tree_eq)
    have len: "length ?src = length (wheel_tree v p')" by (simp add: src wheel_tree_eq)
    show ?thesis by (rule not_below_related [OF len ne 1])
  next
    case 2
    show ?thesis
    proof
      assume "below (wheel_tree v p') k"
      then have "prefix (wheel_tree v p') k" by (simp add: below_def strict_prefix_def)
      from prefix_same_length [OF this 2] have "wheel_tree v p' = wheel_tree v p"
        by (simp add: wheel_paths_length)
      with assms(1) show False by (auto simp: wheel_tree_eq dest: wheel_name_inj)
    qed
  next
    case 3
    show ?thesis
    proof
      assume "below (wheel_tree v p') k"
      then have "length (wheel_tree v p') < length k"
        by (auto simp: below_def strict_prefix_def prefix_def)
      with 3 show False by (simp add: wheel_paths_length)
    qed
  qed
qed

lemma below_scripts: "below (wheel_tree v p) (wheel_scripts v p @ [b])"
  by (simp add: wheel_scripts_def wheel_data_def)

lemma binary_not_touched:
  assumes "p' \<noteq> p" and "CHR ''/'' \<notin> set arch"
  shows "wheel_scripts v p' @ [b] \<notin> touched v p (terraform_zip v arch)"
  using not_below_touched [OF assms] below_scripts by blast

section \<open>The fetch loop\<close>

lemma wget_Inr:
  assumes "wget env url p s = Inr (u, s')"
  shows "trace s' = trace s @ [(Wget url p, True)]"
    and "\<exists>m. files s' = AList.update p (File (snd (remote env (length (trace s)) url)) m) (files s)"
  using assms
  by (auto simp: wget_def effect_Inr split: prod.splits option.splits if_splits dest!: put_file_Some)

lemma fetch_loop_append:
  "fetch_loop env v (xs @ ys) acc = bind_prog (fetch_loop env v xs acc) (fetch_loop env v ys)"
proof (induction xs arbitrary: acc)
  case Nil
  show ?case by (rule ext) (simp add: bind_prog_def return_prog_def)
next
  case (Cons row xs)
  obtain p a where row: "row = (p, a)" by (cases row)
  show ?case
    by (rule ext) (simp add: row Cons.IH bind_prog_def split: sum.splits)
qed

lemma fetch_loop_Inr:
  "fetch_loop env v tab acc s = Inr (pz, s') \<Longrightarrow>
     pz = fold (\<lambda>(p, a). AList.update p (terraform_zip v a)) tab acc
     \<and> trace s' = trace s @ map (\<lambda>(p, a). (Wget (terraform_zip_url v a) (terraform_zip v a), True)) tab"
proof (induction tab arbitrary: acc s)
  case Nil
  then show ?case by (simp add: return_prog_def)
next
  case (Cons row tab)
  obtain p a where row: "row = (p, a)" by (cases row)
  from Cons.prems obtain u s1 where
    w: "wget env (terraform_zip_url v a) (terraform_zip v a) s = Inr (u, s1)"
    and r: "fetch_loop env v tab (AList.update p (terraform_zip v a) acc) s1 = Inr (pz, s')"
    by (auto simp: row elim: bind_prog_InrE)
  from Cons.IH [OF r] wget_Inr(1) [OF w] show ?case by (simp add: row)
qed

lemma grows_fetch_rows:
  "(\<And>a. a \<in> snd ` set tab \<Longrightarrow> terraform_zip v a \<in> A) \<Longrightarrow> grows A (fetch_loop env v tab acc)"
proof (induction tab arbitrary: acc)
  case Nil
  show ?case by (simp add: grows_return)
next
  case (Cons row tab)
  obtain p a where row: "row = (p, a)" by (cases row)
  show ?case unfolding row fetch_loop.simps
    by (intro grows_bind grows_wget Cons.IH) (use Cons.prems row in auto)
qed

lemma table_split:
  "PY_PLATFORM_TF_ARCH = take 5 PY_PLATFORM_TF_ARCH @ [(''macosx_11_0_arm64'', ''linux_arm64'')]
     @ [(''win_amd64'', ''windows_amd64''), (''win32'', ''windows_386'')]"
  by (simp add: PY_PLATFORM_TF_ARCH_def)

lemma table_same_arch:
  assumes "map_of PY_PLATFORM_TF_ARCH p = Some a" and "map_of PY_PLATFORM_TF_ARCH q = Some a"
    and "p \<noteq> q"
  shows "a = ''linux_arm64''"
    and "{p, q} = {''manylinux_2_5_aarch64.musllinux_1_1_aarch64'', ''macosx_11_0_arm64''}"
  using assms by (auto simp: PY_PLATFORM_TF_ARCH_def split: if_splits)

lemma fold_update_map_of:
  "map_of (fold (\<lambda>(p, a). AList.update p (f a)) tab acc) k =
     (case map_of (rev tab) k of Some a \<Rightarrow> Some (f a) | None \<Rightarrow> map_of acc k)"
proof (induction tab arbitrary: acc)
  case Nil
  show ?case by simp
next
  case (Cons row tab)
  obtain p a where row: "row = (p, a)" by (cases row)
  show ?case
    by (simp add: row Cons.IH update_conv' map_add_def split: option.splits)
qed

lemma map_of_rev_distinct: "distinct (map fst xs) \<Longrightarrow> map_of (rev xs) = map_of xs"
  by (subst map_of_inject_set) (simp_all add: rev_map [symmetric])

lemma arm64_after:
  assumes "a \<in> snd ` set [(''win_amd64'', ''windows_amd64''), (''win32'', ''windows_386'')]"
  shows "terraform_zip v a \<in> - {terraform_zip v ''linux_arm64''}"
proof -
  from assms have "CHR ''/'' \<notin> set a" "a \<noteq> ''linux_arm64''" by auto
  then show ?thesis by (simp add: terraform_zip_eq)
qed

lemma fetch_loop_same_architecture:
  assumes "map_of PY_PLATFORM_TF_ARCH p = Some a" and "map_of PY_PLATFORM_TF_ARCH q = Some a"
    and "p \<noteq> q"
    and "fetch_loop env v PY_PLATFORM_TF_ARCH [] s = Inr (platform_zip, s')"
  shows "a = ''linux_arm64''
    \<and> terraform_zip v a = [''build'', ''terraform_'' @ TERRAFORM_VERSION v @ ''_linux_arm64.zip'']
    \<and> map_of platform_zip p = Some (terraform_zip v a)
    \<and> map_of platform_zip q = Some (terraform_zip v a)
    \<and> downloads_to (terraform_zip v a) (drop (length (trace s)) (trace s'))
        = [(terraform_zip_url v a, True), (terraform_zip_url v a, True)]
    \<and> read_bytes (files s') (terraform_zip v a)
        = Some (snd (remote env (length (trace s) + 5) (terraform_zip_url v a)))"
proof -
  let ?f = "terraform_zip v" and ?u = "terraform_zip_url v"
  have a: "a = ''linux_arm64''" by (rule table_same_arch(1) [OF assms(1-3)])
  have path: "?f a = [''build'', ''terraform_'' @ TERRAFORM_VERSION v @ ''_linux_arm64.zip'']"
    by (simp add: a terraform_zip_eq)
  from fetch_loop_Inr [OF assms(4)] have
    pz: "platform_zip = fold (\<lambda>(p, a). AList.update p (?f a)) PY_PLATFORM_TF_ARCH []"
    and tr: "trace s' = trace s @ map (\<lambda>(p, a). (Wget (?u a) (?f a), True)) PY_PLATFORM_TF_ARCH"
    by simp_all
  have rv: "map_of (rev PY_PLATFORM_TF_ARCH) k = map_of PY_PLATFORM_TF_ARCH k" for k
    by (rule map_of_rev_distinct [THEN fun_cong]) (simp add: PY_PLATFORM_TF_ARCH_def)
  have m: "map_of platform_zip k = map_option ?f (map_of PY_PLATFORM_TF_ARCH k)" for k
    unfolding pz fold_update_map_of rv by (simp split: option.splits)
  have d: "downloads_to (?f a) (drop (length (trace s)) (trace s')) = [(?u a, True), (?u a, True)]"
    unfolding tr a
    by (simp add: downloads_to_def PY_PLATFORM_TF_ARCH_def terraform_zip_eq)
  define pre where "pre = take 5 PY_PLATFORM_TF_ARCH"
  define post where "post = [(''win_amd64'', ''windows_amd64''), (''win32'', ''windows_386'')]"
  have ts: "PY_PLATFORM_TF_ARCH = pre @ (''macosx_11_0_arm64'', ''linux_arm64'') # post"
    by (simp add: pre_def post_def PY_PLATFORM_TF_ARCH_def)
  have len: "length pre = 5" by (simp add: pre_def PY_PLATFORM_TF_ARCH_def)
  from assms(4) have
    "bind_prog (fetch_loop env v pre [])
       (fetch_loop env v ((''macosx_11_0_arm64'', ''linux_arm64'') # post)) s = Inr (platform_zip, s')"
    unfolding ts fetch_loop_append .
  then obtain pz1 s1 where
    one: "fetch_loop env v pre [] s = Inr (pz1, s1)"
    and rest: "fetch_loop env v ((''macosx_11_0_arm64'', ''linux_arm64'') # post) pz1 s1
               = Inr (platform_zip, s')"
    by (rule bind_prog_InrE)
  from rest obtain u s2 where
    two: "wget env (?u ''linux_arm64'') (?f ''linux_arm64'') s1 = Inr (u, s2)"
    and three: "fetch_loop env v post
                  (AList.update ''macosx_11_0_arm64'' (?f ''linux_arm64'') pz1) s2
                = Inr (platform_zip, s')"
    unfolding fetch_loop.simps by (rule bind_prog_InrE)
  from fetch_loop_Inr [OF one] have "length (trace s1) = length (trace s) + 5"
    by (simp add: len)
  with wget_Inr(2) [OF two] obtain md where
    "files s2 = AList.update (?f ''linux_arm64'')
                  (File (snd (remote env (length (trace s) + 5) (?u ''linux_arm64''))) md) (files s1)"
    by auto
  then have "lookup (files s2) (?f ''linux_arm64'')
             = Some (File (snd (remote env (length (trace s) + 5) (?u ''linux_arm64''))) md)"
    by (simp add: lookup_update)
  moreover have "grown (- {?f ''linux_arm64''}) (files s2) (files s')"
    by (rule growsD [OF grows_fetch_rows three]) (rule arm64_after, simp add: post_def)
  then have "lookup (files s') (?f ''linux_arm64'') = lookup (files s2) (?f ''linux_arm64'')"
    by (rule grownD(3)) simp
  ultimately have r: "read_bytes (files s') (?f a)
                      = Some (snd (remote env (length (trace s) + 5) (?u a)))"
    by (simp add: read_bytes_def a)
  from a path m [of p] m [of q] assms(1,2) d r show ?thesis by simp
qed

lemma hoareI:
  assumes "\<And>s e s'. P s \<Longrightarrow> m s = Inl (e, s') \<Longrightarrow> E s'"
    and "\<And>s x s'. P s \<Longrightarrow> m s = Inr (x, s') \<Longrightarrow> Q x s'"
  shows "hoare P m Q E"
  unfolding hoare_def using assms by (auto split: sum.splits)

lemma hoareD_Inl: "hoare P m Q E \<Longrightarrow> P s \<Longrightarrow> m s = Inl (e, s') \<Longrightarrow> E s'"
  unfolding hoare_def by (drule spec [of _ s]) simp

lemma hoareD_Inr: "hoare P m Q E \<Longrightarrow> P s \<Longrightarrow> m s = Inr (x, s') \<Longrightarrow> Q x s'"
  unfolding hoare_def by (drule spec [of _ s]) simp

lemma hoare_final:
  assumes "hoare P m Q E" and "P s" and "\<And>x t. Q x t \<Longrightarrow> R t" and "\<And>t. E t \<Longrightarrow> R t"
  shows "R (final_state (m s))"
proof (cases "m s")
  case (Inl r)
  obtain e t where "r = (e, t)" by (cases r)
  with Inl hoareD_Inl [OF assms(1,2)] assms(4) show ?thesis by (simp add: final_state_def)
next
  case (Inr r)
  obtain x t where "r = (x, t)" by (cases r)
  with Inr hoareD_Inr [OF assms(1,2)] assms(3) show ?thesis by (simp add: final_state_def)
qed

lemma hoare_bind:
  assumes "hoare P m R E" and "\<And>x. hoare (R x) (f x) Q E"
  shows "hoare P (bind_prog m f) Q E"
proof (rule hoareI)
  fix s :: state and e s' assume p: "P s" and r: "bind_prog m f s = Inl (e, s')"
  show "E s'"
  proof (cases "m s")
    case (Inl a)
    with r have "m s = Inl (e, s')" by (simp add: bind_prog_def)
    from hoareD_Inl [OF assms(1) p this] show ?thesis .
  next
    case (Inr b)
    obtain x s1 where b: "b = (x, s1)" by (cases b)
    with Inr r have "f x s1 = Inl (e, s')" by (simp add: bind_prog_def)
    from hoareD_Inl [OF assms(2) hoareD_Inr [OF assms(1) p] this] Inr b show ?thesis by simp
  qed
next
  fix s :: state and y s' assume p: "P s" and r: "bind_prog m f s = Inr (y, s')"
  from r obtain x s1 where "m s = Inr (x, s1)" "f x s1 = Inr (y, s')" by (rule bind_prog_InrE)
  from hoareD_Inr [OF assms(2) hoareD_Inr [OF assms(1) p this(1)] this(2)] show "Q y s'" .
qed

lemma hoare_weaken:
  assumes "hoare P' m Q' E'" and "\<And>s. P s \<Longrightarrow> P' s" and "\<And>x s. Q' x s \<Longrightarrow> Q x s"
    and "\<And>s. E' s \<Longrightarrow> E s"
  shows "hoare P m Q E"
  by (rule hoareI) (blast intro: assms(2-4) hoareD_Inl [OF assms(1)] hoareD_Inr [OF assms(1)])+

lemma hoare_for_each:
  assumes "\<And>x xs. hoare (I (x # xs)) (body x) (\<lambda>_. I xs) E"
  shows "hoare (I xs) (for_each body xs) (\<lambda>_. I []) E"
proof (induction xs)
  case Nil
  show ?case by (rule hoareI) (simp_all add: return_prog_def)
next
  case (Cons x xs)
  show ?case unfolding for_each.simps by (rule hoare_bind [OF assms Cons])
qed

text \<open>A call that only adds events of one kind and only changes paths of one set.\<close>

lemma hoare_stable:
  assumes "steps K m" and "grows A m"
    and "\<And>s s' evs. I s \<Longrightarrow> grown A (files s) (files s') \<Longrightarrow> trace s' = trace s @ evs
           \<Longrightarrow> list_all (\<lambda>ev. K (fst ev)) evs \<Longrightarrow> I s'"
  shows "hoare I m (\<lambda>_. I) I"
proof (rule hoareI)
  fix s :: state and e s' assume i: "I s" and r: "m s = Inl (e, s')"
  from steps_Inl [OF assms(1) r] obtain evs a where
    "trace s' = trace s @ (evs @ [(a, False)])" "list_all (\<lambda>ev. K (fst ev)) (evs @ [(a, False)])"
    by auto
  with assms(3) [OF i growsD_Inl [OF assms(2) r]] show "I s'" by blast
next
  fix s :: state and x s' assume i: "I s" and r: "m s = Inr (x, s')"
  from steps_Inr [OF assms(1) r] obtain evs where
    "trace s' = trace s @ evs" "list_all (\<lambda>ev. K (fst ev)) evs"
    by auto
  with assms(3) [OF i growsD [OF assms(2) r]] show "I s'" by blast
qed

lemma hoare_assume: "(C \<Longrightarrow> hoare P m Q E) \<Longrightarrow> hoare (\<lambda>s. C \<and> P s) m Q E"
  unfolding hoare_def by blast

lemma wheel_event_mem: "(ZipWrite w ms, True) \<in> set tr \<longleftrightarrow> (ZipWrite w ms, True) \<in> set (filter is_wheel_event tr)"
  by (simp add: is_wheel_event_def)

lemma wheels_good_cong:
  "filter is_wheel_event (trace s') = filter is_wheel_event (trace s) \<Longrightarrow>
     wheels_good env v msg s \<Longrightarrow> wheels_good env v msg s'"
  unfolding wheels_good_def by (subst wheel_event_mem) (simp add: wheel_event_mem [symmetric])

lemma wheels_good_none: "filter is_wheel_event (trace s) = [] \<Longrightarrow> wheels_good env v msg s"
  unfolding wheels_good_def by (subst wheel_event_mem) simp

lemma other_events_filter:
  "list_all (\<lambda>ev. other_action (fst ev)) evs \<Longrightarrow> filter is_wheel_event evs = []"
  by (induction evs) (auto simp: is_wheel_event_def other_action_def split: action.splits)

lemma assemble_step:
  assumes glob: "\<And>ps. mset (glob_order env ps) = mset ps"
  shows "hoare (loop_inv env v msg (x # xs)) (assemble env v msg x) (\<lambda>_. loop_inv env v msg xs)
           (wheels_good env v msg)"
proof (rule hoareI)
  fix s :: state and e s'
  assume i: "loop_inv env v msg (x # xs) s" and r: "assemble env v msg x s = Inl (e, s')"
  have "filter is_wheel_event (trace s') = filter is_wheel_event (trace s)"
    by (rule tr_hoareD_Inl [OF assemble_failure_wheels _ r]) simp
  with i show "wheels_good env v msg s'" by (auto simp: loop_inv_def intro: wheels_good_cong)
next
  fix s :: state and u s'
  assume i: "loop_inv env v msg (x # xs) s" and r0: "assemble env v msg x s = Inr (u, s')"
  obtain p archive where x: "x = (p, archive)" by (cases x)
  from i x obtain arch where
    p: "p \<in> fst ` set PY_PLATFORM_TF_ARCH" "p \<notin> fst ` set xs" and ok: "items_ok v xs"
    and arch: "CHR ''/'' \<notin> set arch" "archive = terraform_zip v arch"
    and fresh: "keys_below (wheel_tree v p) (files s) = []" "trees_fresh v (map fst xs) s"
    and good: "wheels_good env v msg s"
    by (auto simp: loop_inv_def items_ok_def trees_fresh_def)
  from r0 x have r: "assemble env v msg (p, archive) s = Inr (u, s')" by simp
  have src: "with_suffix_empty archive = [''build'', ''terraform_'' @ TERRAFORM_VERSION v @ ''_'' @ arch]"
    unfolding arch(2) by (rule terraform_src_eq [OF arch(1)])
  have len: "length (with_suffix_empty archive) = 2" by (simp add: src)
  have ne: "with_suffix_empty archive \<noteq> wheel_tree v p"
    using src_not_wheel [of v "''_'' @ arch" p] by (simp add: src wheel_tree_eq)
  from assemble_tree_ok [OF r fresh(1) len ne glob] obtain ms evs where
    w: "wheel_ok env v msg p ms"
    and tr: "trace s' = trace s @ evs @ [(ZipWrite (wheel_file v p) ms, True)]"
    and evs: "list_all (\<lambda>ev. case fst ev of ZipWrite w m \<Rightarrow> False | _ \<Rightarrow> True) evs"
    by blast
  from evs have "list_all (\<lambda>ev. other_action (fst ev)) evs" by (simp add: other_action_def)
  then have none: "\<And>w' ms'. (ZipWrite w' ms', True) \<notin> set evs"
    by (auto simp: list_all_iff other_action_def)
  have g: "wheels_good env v msg s'"
    unfolding wheels_good_def
  proof (intro allI impI)
    fix w' ms' assume "(ZipWrite w' ms', True) \<in> set (trace s')"
    with tr none consider "(ZipWrite w' ms', True) \<in> set (trace s)" | "w' = wheel_file v p" "ms' = ms"
      by auto
    then show "\<exists>platform. platform \<in> fst ` set PY_PLATFORM_TF_ARCH \<and> w' = wheel_file v platform
                 \<and> wheel_ok env v msg platform ms'"
    proof cases
      case 1
      with good show ?thesis by (simp add: wheels_good_def)
    next
      case 2
      with p(1) w show ?thesis by blast
    qed
  qed
  have gr: "grown (touched v p archive) (files s) (files s')"
    by (rule growsD [OF grows_assemble r])
  have f: "trees_fresh v (map fst xs) s'"
    unfolding trees_fresh_def
  proof
    fix q assume q: "q \<in> set (map fst xs)"
    with p(2) have "q \<noteq> p" by auto
    then have "\<forall>k \<in> touched v p archive. \<not> below (wheel_tree v q) k"
      unfolding arch(2) using not_below_touched [OF _ arch(1)] by blast
    moreover from fresh(2) q have "keys_below (wheel_tree v q) (files s) = []"
      by (auto simp: trees_fresh_def)
    ultimately show "keys_below (wheel_tree v q) (files s') = []"
      by (rule keys_below_grown [OF gr])
  qed
  from ok g f show "loop_inv env v msg xs s'" by (simp add: loop_inv_def)
qed

lemma prelude_step:
  assumes "steps other_action m" and "grows {p. length p \<le> 2} m"
    and "\<And>s. nothing_assembled v s \<Longrightarrow> E s"
  shows "hoare (nothing_assembled v) m (\<lambda>_. nothing_assembled v) E"
proof (rule hoare_weaken [OF hoare_stable [OF assms(1,2), where I = "nothing_assembled v"]])
  fix s s' :: state and evs
  assume i: "nothing_assembled v s" and g: "grown {p. length p \<le> 2} (files s) (files s')"
    and t: "trace s' = trace s @ evs" and k: "list_all (\<lambda>ev. other_action (fst ev)) evs"
  have "keys_below (wheel_tree v platform) (files s') = []" for platform
  proof (rule keys_below_grown [OF g])
    show "\<forall>q \<in> {p. length p \<le> 2}. \<not> below (wheel_tree v platform) q"
      by (auto simp: below_def strict_prefix_def prefix_def wheel_tree_eq)
    from i show "keys_below (wheel_tree v platform) (files s) = []"
      by (simp add: nothing_assembled_def)
  qed
  with i t other_events_filter [OF k] show "nothing_assembled v s'"
    by (simp add: nothing_assembled_def)
qed (use assms(3) in auto)

lemma fold_update_distinct:
  "distinct (map fst acc) \<Longrightarrow> distinct (map fst (fold (\<lambda>(p, a). AList.update p (f a)) tab acc))"
  by (induction tab arbitrary: acc) (auto simp: distinct_update)

lemma table_archs: "a \<in> snd ` set PY_PLATFORM_TF_ARCH \<Longrightarrow> CHR ''/'' \<notin> set a"
  by (auto simp: PY_PLATFORM_TF_ARCH_def)

lemma fetched_items_ok:
  "items_ok v (fold (\<lambda>(p, a). AList.update p (terraform_zip v a)) PY_PLATFORM_TF_ARCH [])"
proof -
  let ?pz = "fold (\<lambda>(p, a). AList.update p (terraform_zip v a)) PY_PLATFORM_TF_ARCH []"
  have d: "distinct (map fst ?pz)" by (rule fold_update_distinct) simp
  have rv: "map_of (rev PY_PLATFORM_TF_ARCH) k = map_of PY_PLATFORM_TF_ARCH k" for k
    by (rule map_of_rev_distinct [THEN fun_cong]) (simp add: PY_PLATFORM_TF_ARCH_def)
  have m: "map_of ?pz k = map_option (terraform_zip v) (map_of PY_PLATFORM_TF_ARCH k)" for k
    unfolding fold_update_map_of rv by (simp split: option.splits)
  have "fst item \<in> fst ` set PY_PLATFORM_TF_ARCH
        \<and> (\<exists>arch. CHR ''/'' \<notin> set arch \<and> snd item = terraform_zip v arch)"
    if "item \<in> set ?pz" for item
  proof -
    from that have "(fst item, snd item) \<in> set ?pz" by simp
    with d have "map_of ?pz (fst item) = Some (snd item)" by (simp only: map_of_eq_Some_iff)
    with m obtain a where a: "map_of PY_PLATFORM_TF_ARCH (fst item) = Some a"
      "snd item = terraform_zip v a"
      by auto
    from a(1) have "(fst item, a) \<in> set PY_PLATFORM_TF_ARCH" by (rule map_of_SomeD)
    then have "fst item \<in> fst ` set PY_PLATFORM_TF_ARCH" "a \<in> snd ` set PY_PLATFORM_TF_ARCH"
      by force+
    with a(2) table_archs show ?thesis by blast
  qed
  with d show ?thesis unfolding items_ok_def by blast
qed

lemma start_loop:
  assumes "nothing_assembled v s"
  shows "loop_inv env v msg (fold (\<lambda>(p, a). AList.update p (terraform_zip v a)) PY_PLATFORM_TF_ARCH []) s"
  using assms fetched_items_ok [of v]
  by (simp add: loop_inv_def nothing_assembled_def trees_fresh_def wheels_good_none)

lemma path_lengths:
  "length BUILD_DIR \<le> 2" "length (terraform_sha256 v) \<le> 2" "length (terraform_sigs v) \<le> 2"
  "length (terraform_zip v a) \<le> 2"
  by (simp_all add: BUILD_DIR_def terraform_sha256_def terraform_sigs_def terraform_zip_def)

lemma script_wheels:
  assumes glob: "\<And>ps. mset (glob_order env ps) = mset ps"
  shows "hoare (nothing_assembled v) (script env v)
           (\<lambda>_ s. \<exists>readme. wheels_good env v (PACKAGE_METADATA_MSG v readme) s)
           (\<lambda>s. \<exists>readme. wheels_good env v (PACKAGE_METADATA_MSG v readme) s)"
proof -
  let ?E = "\<lambda>s. \<exists>readme. wheels_good env v (PACKAGE_METADATA_MSG v readme) s"
  let ?F = "fold (\<lambda>(p, a). AList.update p (terraform_zip v a)) PY_PLATFORM_TF_ARCH []"
  have e: "?E s" if "nothing_assembled v s" for s
    using that by (auto simp: nothing_assembled_def intro: wheels_good_none)
  have fetch: "hoare (nothing_assembled v) (fetch_loop env v PY_PLATFORM_TF_ARCH [])
                 (\<lambda>pz s. pz = ?F \<and> nothing_assembled v s) ?E"
  proof (rule hoareI)
    fix s :: state and err s'
    assume "nothing_assembled v s" "fetch_loop env v PY_PLATFORM_TF_ARCH [] s = Inl (err, s')"
    then show "?E s'"
      by (rule hoareD_Inl [OF prelude_step, rotated -2])
         (auto intro!: steps_fetch_loop grows_fetch_loop e simp: other_action_def path_lengths)
  next
    fix s :: state and pz s'
    assume n: "nothing_assembled v s" and r: "fetch_loop env v PY_PLATFORM_TF_ARCH [] s = Inr (pz, s')"
    from n r have "nothing_assembled v s'"
      by (rule hoareD_Inr [OF prelude_step, rotated -2])
         (auto intro!: steps_fetch_loop grows_fetch_loop e simp: other_action_def path_lengths)
    with fetch_loop_Inr [OF r] show "pz = ?F \<and> nothing_assembled v s'" by simp
  qed
  have loop: "hoare (nothing_assembled v) (for_each (assemble env v (PACKAGE_METADATA_MSG v readme)) ?F)
                (\<lambda>_. ?E) ?E" for readme
  proof (rule hoare_weaken [OF hoare_for_each [where I = "loop_inv env v (PACKAGE_METADATA_MSG v readme)",
            OF assemble_step [OF glob]]])
    fix s assume "nothing_assembled v s"
    then show "loop_inv env v (PACKAGE_METADATA_MSG v readme) ?F s" by (rule start_loop)
  next
    fix u :: unit and s assume "loop_inv env v (PACKAGE_METADATA_MSG v readme) [] s"
    then show "?E s" by (auto simp: loop_inv_def)
  next
    fix s assume "wheels_good env v (PACKAGE_METADATA_MSG v readme) s"
    then show "?E s" by blast
  qed
  show ?thesis
    unfolding script_def
    apply (rule hoare_bind [OF prelude_step])
       apply (simp_all add: steps_read_text other_action_def grows_read_text e)
    apply (rule hoare_bind [OF prelude_step])
       apply (simp_all add: steps_mkdir other_action_def grows_mkdir path_lengths e)
    apply (rule hoare_bind [OF prelude_step])
       apply (simp_all add: steps_wget other_action_def grows_wget path_lengths e)
    apply (rule hoare_bind [OF prelude_step])
       apply (simp_all add: steps_wget other_action_def grows_wget path_lengths e)
    apply (rule hoare_bind [OF prelude_step])
       apply (simp_all add: steps_gpg other_action_def grows_gpg e)
    apply (rule hoare_bind [OF fetch])
    apply (rule hoare_assume)
    apply (rule hoare_bind [OF prelude_step])
       apply (simp_all add: steps_shasum other_action_def grows_shasum e loop)
    done
qed

lemma rehash_code [code]:
  "rehash env p =
     effect (Rehash p) (\<lambda>fs.
       case read_bytes fs p of
         None \<Rightarrow> (Inl (FilesystemError p), fs)
       | Some bytes \<Rightarrow>
           (Inr (''sha256='' @ rstrip_eq (urlsafe_b64encode (sha256 env bytes)),
                 str_nat (length bytes)), fs))"
  by (simp add: rehash_def rehash_bytes_eq default_blocksize_def rstrip_urlsafe_b64encode
      cong: option.case_cong)

lemma below_build: "below (wheel_tree v platform) k \<Longrightarrow> below BUILD_DIR k"
  by (auto simp: below_def wheel_tree_def strict_prefix_def prefix_def)

lemma fresh_start:
  assumes "keys_below BUILD_DIR (initial_files env) = []"
  shows "nothing_assembled v (initial_state env)"
  using assms below_build [of v]
  by (auto simp: nothing_assembled_def initial_state_def keys_below_def filter_empty_conv)

lemma main_wheels:
  assumes "keys_below BUILD_DIR (initial_files env) = []"
    and "\<And>ps. mset (glob_order env ps) = mset ps"
    and "(ZipWrite w ms, True) \<in> set (trace (final_state (main env)))"
  shows "\<exists>v readme platform. parse (GIT_TAG (environ_GIT_TAG env)) = Some v
           \<and> platform \<in> fst ` set PY_PLATFORM_TF_ARCH \<and> w = wheel_file v platform
           \<and> wheel_ok env v (PACKAGE_METADATA_MSG v readme) platform ms"
proof (cases "parse (GIT_TAG (environ_GIT_TAG env))")
  case None
  with assms(3) show ?thesis by (simp add: main_def final_state_def initial_state_def)
next
  case (Some v)
  have "\<exists>readme. wheels_good env v (PACKAGE_METADATA_MSG v readme)
          (final_state (script env v (initial_state env)))"
    by (rule hoare_final [OF script_wheels [OF assms(2)] fresh_start [OF assms(1)]])
  with assms(3) Some show ?thesis
    unfolding wheels_good_def by (simp add: main_def) blast
qed

text \<open>
  Claim C1: in a run that starts with nothing inside the build directory, and in which a
  directory listing yields every path once, every wheel archive that is written is the
  wheel file of a platform of the table and holds exactly five entries: the binary under
  the scripts directory of the data directory, and \<open>LICENSE\<close>, \<open>METADATA\<close>, \<open>WHEEL\<close> and
  \<open>RECORD\<close> under the dist-info directory. The bytes of \<open>RECORD\<close> are five lines: one
  line of path, digest and length for each of the four other files, and one line with the
  path of \<open>RECORD\<close> and two empty fields.
\<close>

theorem wheel_archive_and_record:
  assumes "keys_below BUILD_DIR (initial_files env) = []"
    and "\<And>ps. mset (glob_order env ps) = mset ps"
    and "(ZipWrite w ms, True) \<in> set (trace (final_state (main env)))"
  shows "\<exists>v readme platform binary bin_bytes license_bytes lines.
           parse (GIT_TAG (environ_GIT_TAG env)) = Some v
           \<and> platform \<in> fst ` set PY_PLATFORM_TF_ARCH \<and> w = wheel_file v platform
           \<and> (binary = ''terraform'' \<or> binary = ''terraform.exe'')
           \<and> mset ms = wheel_members env v (PACKAGE_METADATA_MSG v readme) platform binary
                          bin_bytes license_bytes (concat lines)
           \<and> mset lines = wheel_lines env v (PACKAGE_METADATA_MSG v readme) platform binary
                             bin_bytes license_bytes
           \<and> length ms = 5 \<and> length lines = 5"
proof -
  from main_wheels [OF assms] obtain v readme platform binary bin_bytes license_bytes lines where
    a: "parse (GIT_TAG (environ_GIT_TAG env)) = Some v"
       "platform \<in> fst ` set PY_PLATFORM_TF_ARCH" "w = wheel_file v platform"
       "binary = ''terraform'' \<or> binary = ''terraform.exe''"
    and m: "mset ms = wheel_members env v (PACKAGE_METADATA_MSG v readme) platform binary
                        bin_bytes license_bytes (concat lines)"
    and l: "mset lines = wheel_lines env v (PACKAGE_METADATA_MSG v readme) platform binary
                           bin_bytes license_bytes"
    unfolding wheel_ok_def by blast
  from m have "size (mset ms) = 5" by (simp add: wheel_members_def)
  moreover from l have "size (mset lines) = 5" by (simp add: wheel_lines_def)
  ultimately have "length ms = 5" "length lines = 5" by simp_all
  with a m l show ?thesis by blast
qed

lemma bind_prog_assoc:
  "bind_prog (bind_prog m f) g = bind_prog m (\<lambda>x. bind_prog (f x) g)"
  by (rule ext) (simp add: bind_prog_def split: sum.splits prod.splits)

lemma bind_return: "bind_prog (return_prog x) f = f x"
  by (rule ext) (simp add: bind_prog_def return_prog_def)

lemma script_phases:
  "script env v =
     bind_prog (fetch_phase env v)
       (\<lambda>r. for_each (assemble env v (PACKAGE_METADATA_MSG v (fst r))) (snd r))"
  unfolding script_def fetch_phase_def by (simp add: bind_prog_assoc bind_return)

lemma effect_Inl:
  "effect a f s = Inl (e, s') \<longleftrightarrow>
     (\<exists>fs'. f (files s) = (Inl e, fs') \<and> s' = \<lparr>files = fs', trace = trace s @ [(a, False)]\<rparr>)"
  by (auto simp: effect_def split: prod.splits sum.splits)

lemma read_text_Inr:
  "read_text decode p s = Inr (x, s') \<Longrightarrow> s' = \<lparr>files = files s, trace = trace s @ [(ReadText p, True)]\<rparr>"
  by (auto simp: read_text_def effect_Inr)

lemma gpg_Inr:
  "gpg env k g d s = Inr (x, s') \<Longrightarrow> s' = \<lparr>files = files s, trace = trace s @ [(Gpg k g d, True)]\<rparr>"
  by (auto simp: gpg_def effect_Inr split: option.splits if_splits)

lemma shasum_Inr:
  "shasum env cwd m s = Inr (x, s') \<Longrightarrow> s' = \<lparr>files = files s, trace = trace s @ [(Shasum m, True)]\<rparr>"
  by (auto simp: shasum_def effect_Inr split: option.splits if_splits)

lemma iteration_starts_inv:
  assumes "I s" and "\<And>x t u t'. x \<in> set xs \<Longrightarrow> I t \<Longrightarrow> body x t = Inr (u, t') \<Longrightarrow> I t'"
    and "(x, t) \<in> set (iteration_starts body xs s)"
  shows "x \<in> set xs \<and> I t"
  using assms
proof (induction xs arbitrary: s)
  case Nil
  then show ?case by simp
next
  case (Cons y ys)
  show ?case
  proof (cases "(x, t) = (y, s)")
    case True
    with Cons.prems(1) show ?thesis by simp
  next
    case False
    with Cons.prems(3) have
      c: "(x, t) \<in> set (case body y s of Inl r \<Rightarrow> [] | Inr r \<Rightarrow> iteration_starts body ys (snd r))"
      by auto
    then obtain u s1 where r: "body y s = Inr (u, s1)"
      by (cases "body y s") auto
    with c have m: "(x, t) \<in> set (iteration_starts body ys s1)" by simp
    from Cons.prems(2) [OF _ Cons.prems(1) r] have "I s1" by simp
    from Cons.IH [OF this _ m] Cons.prems(2) show ?thesis by auto
  qed
qed

lemma trace_extends:
  assumes "steps K m"
  shows "\<exists>evs. trace (final_state (m s)) = trace s @ evs"
proof (cases "m s")
  case (Inl r)
  obtain e s' where "r = (e, s')" by (cases r)
  with Inl steps_Inl [OF assms, of s e s'] show ?thesis by (auto simp: final_state_def)
next
  case (Inr r)
  obtain x s' where "r = (x, s')" by (cases r)
  with Inr steps_Inr [OF assms, of s x s'] show ?thesis by (auto simp: final_state_def)
qed

lemma final_state_bind:
  "final_state (bind_prog m f s) =
     (case m s of Inl r \<Rightarrow> snd r | Inr r \<Rightarrow> final_state (f (fst r) (snd r)))"
  by (simp add: bind_prog_def final_state_def split: sum.splits prod.splits)

lemma iteration_starts_trace:
  assumes "\<And>y. steps K (body y)" and "(x, t) \<in> set (iteration_starts body xs s)"
  shows "\<exists>rest. trace (final_state (for_each body xs s)) = trace (final_state (body x t)) @ rest"
  using assms(2)
proof (induction xs arbitrary: s)
  case Nil
  then show ?case by simp
next
  case (Cons y ys)
  show ?case
  proof (cases "(x, t) = (y, s)")
    case True
    show ?thesis
    proof (cases "body y s")
      case (Inl r)
      then have "final_state (for_each body (y # ys) s) = final_state (body y s)"
        by (simp add: final_state_bind) (simp add: final_state_def split: prod.splits)
      with True show ?thesis by simp
    next
      case (Inr r)
      then have "final_state (for_each body (y # ys) s) = final_state (for_each body ys (snd r))"
        and "final_state (body y s) = snd r"
        by (simp_all add: final_state_bind) (simp add: final_state_def split: prod.splits)
      with trace_extends [OF steps_for_each [of K body ys, OF assms(1)], of "snd r"] True
      show ?thesis by simp
    qed
  next
    case False
    with Cons.prems have
      c: "(x, t) \<in> set (case body y s of Inl r \<Rightarrow> [] | Inr r \<Rightarrow> iteration_starts body ys (snd r))"
      by auto
    then obtain r where r: "body y s = Inr r"
      by (cases "body y s") auto
    with c have m: "(x, t) \<in> set (iteration_starts body ys (snd r))" by simp
    from Cons.IH [OF m] r show ?thesis by (simp add: final_state_bind)
  qed
qed

lemma iteration_starts_all:
  "for_each body xs s = Inr r \<Longrightarrow> map fst (iteration_starts body xs s) = xs"
proof (induction xs arbitrary: s)
  case Nil
  show ?case by simp
next
  case (Cons y ys)
  from Cons.prems obtain u s1 where "body y s = Inr (u, s1)" "for_each body ys s1 = Inr r"
    by (auto elim: bind_prog_InrE)
  with Cons.IH [of s1] show ?case by simp
qed

lemma downloads_to_append [simp]:
  "downloads_to p (xs @ ys) = downloads_to p xs @ downloads_to p ys"
  by (simp add: downloads_to_def)

lemma downloads_to_Nil [simp]: "downloads_to p [] = []"
  by (simp add: downloads_to_def)

lemma downloads_to_assembly:
  "list_all (\<lambda>ev. assembly_action (fst ev)) evs \<Longrightarrow> downloads_to p evs = []"
  by (induction evs) (auto simp: downloads_to_def assembly_action_def split: action.splits)

lemma terraform_sha256_eq:
  "terraform_sha256 v = [''build'', ''terraform_'' @ TERRAFORM_VERSION v @ ''_SHA256SUMS'']"
proof -
  have "path_name ((''https://releases.hashicorp.com/terraform/'' @ TERRAFORM_VERSION v)
          @ CHR ''/'' # (''terraform_'' @ TERRAFORM_VERSION v @ ''_SHA256SUMS''))
        = ''terraform_'' @ TERRAFORM_VERSION v @ ''_SHA256SUMS''"
    by (rule path_name_last) (use no_slash_version [of v] in auto)
  then show ?thesis
    by (simp add: terraform_sha256_def TERRAFORM_SHA256_URL_def BUILD_DIR_def)
qed

lemma terraform_sigs_eq:
  "terraform_sigs v = [''build'', ''terraform_'' @ TERRAFORM_VERSION v @ ''_SHA256SUMS.sig'']"
proof -
  have "path_name ((''https://releases.hashicorp.com/terraform/'' @ TERRAFORM_VERSION v)
          @ CHR ''/'' # (''terraform_'' @ TERRAFORM_VERSION v @ ''_SHA256SUMS.sig''))
        = ''terraform_'' @ TERRAFORM_VERSION v @ ''_SHA256SUMS.sig''"
    by (rule path_name_last) (use no_slash_version [of v] in auto)
  then show ?thesis
    by (simp add: terraform_sigs_def TERRAFORM_SIGS_URL_def BUILD_DIR_def)
qed

lemma arm64_zip_eq:
  "terraform_zip v ''linux_arm64'' = [''build'', ''terraform_'' @ TERRAFORM_VERSION v @ ''_linux_arm64.zip'']"
  by (simp add: terraform_zip_eq)

lemma fetch_phase_Inr:
  assumes "fetch_phase env v s0 = Inr ((readme, pz), s3)"
  obtains s5 s13 where
    "length (trace s5) = length (trace s0) + 5"
    "downloads_to (terraform_zip v ''linux_arm64'') (trace s5)
       = downloads_to (terraform_zip v ''linux_arm64'') (trace s0)"
    "fetch_loop env v PY_PLATFORM_TF_ARCH [] s5 = Inr (pz, s13)"
    "files s3 = files s13" "trace s3 = trace s13 @ [(Shasum (terraform_sha256 v), True)]"
proof -
  from assms obtain r1 s1 u2 s2 u3 s3' u4 s4 u5 s5 s13 u7 where
    a: "read_text (decode_text env) README s0 = Inr (r1, s1)"
       "mkdir_exist_ok BUILD_DIR s1 = Inr (u2, s2)"
       "wget env (TERRAFORM_SHA256_URL (TERRAFORM_VERSION v)) (terraform_sha256 v) s2 = Inr (u3, s3')"
       "wget env (TERRAFORM_SIGS_URL (TERRAFORM_VERSION v)) (terraform_sigs v) s3' = Inr (u4, s4)"
       "gpg env HASHICORP_GPG (terraform_sigs v) (terraform_sha256 v) s4 = Inr (u5, s5)"
    and f: "fetch_loop env v PY_PLATFORM_TF_ARCH [] s5 = Inr (pz, s13)"
    and h: "shasum env BUILD_DIR (terraform_sha256 v) s13 = Inr (u7, s3)"
    unfolding fetch_phase_def
    by (elim bind_prog_InrE) (simp add: return_prog_def)
  from read_text_Inr [OF a(1)] mkdir_Inr(1) [OF a(2)] wget_Inr(1) [OF a(3)] wget_Inr(1) [OF a(4)]
    gpg_Inr [OF a(5)]
  have t: "trace s5 = trace s0 @ [(ReadText README, True), (Mkdir BUILD_DIR, True),
             (Wget (TERRAFORM_SHA256_URL (TERRAFORM_VERSION v)) (terraform_sha256 v), True),
             (Wget (TERRAFORM_SIGS_URL (TERRAFORM_VERSION v)) (terraform_sigs v), True),
             (Gpg HASHICORP_GPG (terraform_sigs v) (terraform_sha256 v), True)]"
    by simp
  have 1: "length (trace s5) = length (trace s0) + 5" by (simp add: t)
  have 2: "downloads_to (terraform_zip v ''linux_arm64'') (trace s5)
           = downloads_to (terraform_zip v ''linux_arm64'') (trace s0)"
    unfolding t downloads_to_append
    by (simp add: downloads_to_def arm64_zip_eq terraform_sha256_eq terraform_sigs_eq)
  from shasum_Inr [OF h] have "files s3 = files s13"
    "trace s3 = trace s13 @ [(Shasum (terraform_sha256 v), True)]"
    by simp_all
  with 1 2 f show ?thesis by (rule that)
qed

lemma arm64_not_touched:
  assumes "a \<in> snd ` set PY_PLATFORM_TF_ARCH"
  shows "terraform_zip v ''linux_arm64'' \<notin> touched v platform (terraform_zip v a)"
proof
  let ?Z = "terraform_zip v ''linux_arm64''"
  assume "?Z \<in> touched v platform (terraform_zip v a)"
  then consider "?Z \<in> related (with_suffix_empty (terraform_zip v a))"
    | "prefix (wheel_tree v platform) ?Z" | "?Z = wheel_file v platform"
    by (auto simp: touched_def)
  then show False
  proof cases
    case 1
    from assms have s: "CHR ''/'' \<notin> set a" by (rule table_archs)
    from 1 have "prefix ?Z (with_suffix_empty (terraform_zip v a))
                 \<or> prefix (with_suffix_empty (terraform_zip v a)) ?Z"
      by (auto simp: related_def)
    then have "with_suffix_empty (terraform_zip v a) = ?Z"
      by (auto simp: terraform_src_eq [OF s] arm64_zip_eq prefix_def)
    then have "a = ''linux_arm64.zip''" by (simp add: terraform_src_eq [OF s] arm64_zip_eq)
    with assms show False by (simp add: PY_PLATFORM_TF_ARCH_def)
  next
    case 2
    then have "wheel_tree v platform = ?Z"
      by (auto simp: wheel_tree_eq arm64_zip_eq prefix_def)
    with src_not_wheel [of v "''_linux_arm64.zip''" platform] show False
      by (simp add: wheel_tree_eq arm64_zip_eq)
  next
    case 3
    then have "''terraform_'' @ TERRAFORM_VERSION v @ ''_linux_arm64.zip'' = wheel_name v platform @ ''.whl''"
      by (simp add: arm64_zip_eq wheel_file_def BUILD_DIR_def)
    then have "last (''terraform_'' @ TERRAFORM_VERSION v @ ''_linux_arm64.zip'')
               = last (wheel_name v platform @ ''.whl'')"
      by simp
    then show False by simp
  qed
qed

lemma assemble_keeps_archive:
  assumes "a \<in> snd ` set PY_PLATFORM_TF_ARCH"
    and "assemble env v msg (platform, terraform_zip v a) t = Inr (u, t')"
  shows "lookup (files t') (terraform_zip v ''linux_arm64'') = lookup (files t) (terraform_zip v ''linux_arm64'')"
    and "downloads_to (terraform_zip v ''linux_arm64'') (trace t')
         = downloads_to (terraform_zip v ''linux_arm64'') (trace t)"
proof -
  have "grown (touched v platform (terraform_zip v a)) (files t) (files t')"
    by (rule growsD [OF grows_assemble assms(2)])
  then show "lookup (files t') (terraform_zip v ''linux_arm64'')
             = lookup (files t) (terraform_zip v ''linux_arm64'')"
    by (rule grownD(3)) (rule arm64_not_touched [OF assms(1)])
  from steps_Inr [OF steps_assemble assms(2)] obtain evs where
    "trace t' = trace t @ evs" "list_all (\<lambda>ev. assembly_action (fst ev)) evs"
    by blast
  then show "downloads_to (terraform_zip v ''linux_arm64'') (trace t')
             = downloads_to (terraform_zip v ''linux_arm64'') (trace t)"
    by (simp add: downloads_to_assembly)
qed

lemma assemble_starts_with_unpack:
  "\<exists>rest. trace (final_state (assemble env v msg (platform, archive) t)) = trace t @ rest
     \<and> (rest = [(Mkdir (wheel_tree v platform), False)]
        \<or> (\<exists>ok rest'. rest = (Mkdir (wheel_tree v platform), True)
                              # (Unpack archive (with_suffix_empty archive), ok) # rest'))"
proof (cases "mkdir_exist_ok (wheel_tree v platform) t")
  case (Inl r)
  obtain e t1 where r: "r = (e, t1)" by (cases r)
  from Inl r have "trace t1 = trace t @ [(Mkdir (wheel_tree v platform), False)]"
    by (auto simp: mkdir_exist_ok_def effect_Inl)
  moreover from Inl r have "final_state (assemble env v msg (platform, archive) t) = t1"
    unfolding assemble_def Let_def fst_conv snd_conv by (simp add: final_state_bind)
  ultimately show ?thesis by simp
next
  case (Inr r)
  obtain u t1 where r: "r = (u, t1)" by (cases r)
  from mkdir_Inr(1) [of "wheel_tree v platform" t u t1] Inr r
  have t1: "trace t1 = trace t @ [(Mkdir (wheel_tree v platform), True)]" by simp
  show ?thesis
  proof (cases "unpack_archive env archive (with_suffix_empty archive) t1")
    case (Inl r2)
    obtain e t2 where r2: "r2 = (e, t2)" by (cases r2)
    from Inl r2 have "trace t2 = trace t1 @ [(Unpack archive (with_suffix_empty archive), False)]"
      by (auto simp: unpack_archive_def effect_Inl)
    moreover from Inl r2 Inr r have "final_state (assemble env v msg (platform, archive) t) = t2"
      unfolding assemble_def Let_def fst_conv snd_conv by (simp add: final_state_bind)
    ultimately show ?thesis using t1 by auto
  next
    case (Inr r2)
    obtain u2 t2 where r2: "r2 = (u2, t2)" by (cases r2)
    from unpack_Inr_trace [of env archive "with_suffix_empty archive" t1 u2 t2] Inr r2
    have t2: "trace t2 = trace t1 @ [(Unpack archive (with_suffix_empty archive), True)]" by simp
    define rest where "rest = (\<lambda>(_::unit).
         bind_prog (mkdir_exist_ok (wheel_data v platform)) (\<lambda>_.
         bind_prog (mkdir_exist_ok (wheel_scripts v platform)) (\<lambda>_.
         bind_prog (mkdir_exist_ok (wheel_info v platform)) (\<lambda>_.
         bind_prog get_files (\<lambda>fs.
         let terraform_src_binary =
               (if path_exists fs (with_suffix_empty archive @ [''terraform''])
                then with_suffix_empty archive @ [''terraform'']
                else with_suffix_empty archive @ [''terraform.exe'']);
             terraform_binary = wheel_scripts v platform @ [last terraform_src_binary]
         in bind_prog (copy (create_mode env) terraform_src_binary terraform_binary) (\<lambda>_.
            bind_prog (chmod terraform_binary 493) (\<lambda>_.
            bind_prog (copy (create_mode env) LICENSE (wheel_info v platform)) (\<lambda>_.
            bind_prog (write_text (create_mode env) (wheel_info v platform @ [''METADATA''])
                         (as_string env msg)) (\<lambda>_.
            bind_prog (write_text (create_mode env) (wheel_info v platform @ [''WHEEL''])
                         (as_string env (wheel_metadata_msg platform))) (\<lambda>_.
            bind_prog get_files (\<lambda>fs.
            bind_prog (record_loop env (wheel_tree v platform)
                         (glob_files (glob_order env) fs (wheel_tree v platform)) []) (\<lambda>entries.
            bind_prog (write_text (create_mode env) (wheel_record v platform)
               (concat (wheel_record_lines
                  (AList.update (relative_to (wheel_tree v platform) (wheel_record v platform))
                     ([], []) entries)))) (\<lambda>_.
            write_zip env (wheel_file v platform) (wheel_tree v platform))))))))))))))"
    have st: "steps (\<lambda>a. True) (rest ())"
      unfolding rest_def Let_def
      by (intro steps_bind steps_mkdir steps_get_files steps_copy steps_chmod
          steps_write_text steps_record_loop steps_write_zip TrueI)
    have "assemble env v msg (platform, archive)
          = bind_prog (mkdir_exist_ok (wheel_tree v platform))
              (\<lambda>_. bind_prog (unpack_archive env archive (with_suffix_empty archive)) rest)"
      unfolding assemble_def rest_def Let_def fst_conv snd_conv ..
    with \<open>mkdir_exist_ok (wheel_tree v platform) t = Inr r\<close> r Inr r2
    have "final_state (assemble env v msg (platform, archive) t) = final_state (rest u2 t2)"
      by (simp add: final_state_bind)
    moreover from trace_extends [OF st, of t2] obtain evs where
      "trace (final_state (rest u2 t2)) = trace t2 @ evs"
      by auto
    ultimately show ?thesis using t1 t2 by auto
  qed
qed

lemma fetched_item:
  assumes "item \<in> set (fold (\<lambda>(p, a). AList.update p (terraform_zip v a)) PY_PLATFORM_TF_ARCH [])"
  shows "map_of (fold (\<lambda>(p, a). AList.update p (terraform_zip v a)) PY_PLATFORM_TF_ARCH []) (fst item)
           = Some (snd item)
         \<and> (\<exists>a. (fst item, a) \<in> set PY_PLATFORM_TF_ARCH \<and> snd item = terraform_zip v a)"
proof -
  let ?pz = "fold (\<lambda>(p, a). AList.update p (terraform_zip v a)) PY_PLATFORM_TF_ARCH []"
  have d: "distinct (map fst ?pz)" by (rule fold_update_distinct) simp
  have rv: "map_of (rev PY_PLATFORM_TF_ARCH) k = map_of PY_PLATFORM_TF_ARCH k" for k
    by (rule map_of_rev_distinct [THEN fun_cong]) (simp add: PY_PLATFORM_TF_ARCH_def)
  have m: "map_of ?pz k = map_option (terraform_zip v) (map_of PY_PLATFORM_TF_ARCH k)" for k
    unfolding fold_update_map_of rv by (simp split: option.splits)
  from assms have "(fst item, snd item) \<in> set ?pz" by simp
  with d have s: "map_of ?pz (fst item) = Some (snd item)" by (simp only: map_of_eq_Some_iff)
  with m obtain a where a: "map_of PY_PLATFORM_TF_ARCH (fst item) = Some a"
    "snd item = terraform_zip v a"
    by auto
  from a(1) have "(fst item, a) \<in> set PY_PLATFORM_TF_ARCH" by (rule map_of_SomeD)
  with a(2) s show ?thesis by blast
qed

lemma main_failed_last:
  assumes "trace (final_state (main env)) = xs @ (a, False) # ys"
  shows "ys = []"
proof -
  from main_trace_shape [of env] consider
    (noparse) st where "main env = Inl (ParseError, st)" "trace st = []"
    | (failed) e st evs a' where "main env = Inl (e, st)" "trace st = evs @ [(a', False)]"
      "list_all snd evs"
    | (finished) st where "main env = Inr ((), st)" "list_all snd (trace st)"
    by blast
  then show ?thesis
  proof cases
    case noparse
    with assms show ?thesis by (simp add: final_state_def)
  next
    case failed
    with assms have "evs @ [(a', False)] = xs @ (a, False) # ys" by (simp add: final_state_def)
    from failed_event_last [OF this failed(3)] show ?thesis by simp
  next
    case finished
    with assms show ?thesis by (simp add: final_state_def)
  qed
qed

text \<open>
  Claim C9: two different platforms of the table with the same architecture can only be
  the two that map to \<open>linux_arm64\<close>, and the URL and the path of the build directory
  computed for them are the same. In a run of the script, when the assembly of either of
  the two platforms starts, the archive of its item is that one path; the file has been
  downloaded twice, from the one URL, and by nothing else; it holds what the later
  download, the event of index 10 of the run, received; and the run goes on with the
  creation of the platform's wheel tree and the unpacking of that archive. A run that
  exits with status 0 has assembled both platforms.
\<close>

theorem same_architecture_shares_archive:
  assumes "map_of PY_PLATFORM_TF_ARCH p = Some a" and "map_of PY_PLATFORM_TF_ARCH q = Some a"
    and "p \<noteq> q"
    and "parse (GIT_TAG (environ_GIT_TAG env)) = Some v"
    and "((platform, archive), t) \<in> set (assembly_starts env v (initial_state env))"
    and "platform = p \<or> platform = q"
  shows "a = ''linux_arm64''
    \<and> terraform_zip v a = [''build'', ''terraform_'' @ TERRAFORM_VERSION v @ ''_linux_arm64.zip'']
    \<and> archive = terraform_zip v a
    \<and> downloads_to (terraform_zip v a) (trace t)
        = [(terraform_zip_url v a, True), (terraform_zip_url v a, True)]
    \<and> read_bytes (files t) (terraform_zip v a) = Some (snd (remote env 10 (terraform_zip_url v a)))
    \<and> (\<exists>rest. trace (final_state (main env)) = trace t @ rest
          \<and> (rest = [(Mkdir (wheel_tree v platform), False)]
             \<or> (\<exists>ok rest'. rest = (Mkdir (wheel_tree v platform), True)
                                   # (Unpack archive (with_suffix_empty archive), ok) # rest')))
    \<and> (exit_status (main env) = 0 \<longrightarrow>
          (\<exists>t1 t2. ((p, terraform_zip v a), t1) \<in> set (assembly_starts env v (initial_state env))
                 \<and> ((q, terraform_zip v a), t2) \<in> set (assembly_starts env v (initial_state env))))"
proof -
  let ?Z = "terraform_zip v ''linux_arm64''" and ?U = "terraform_zip_url v ''linux_arm64''"
  let ?F = "fold (\<lambda>(p, a). AList.update p (terraform_zip v a)) PY_PLATFORM_TF_ARCH []"
  let ?s0 = "initial_state env"
  have a: "a = ''linux_arm64''" by (rule table_same_arch(1) [OF assms(1-3)])
  from assms(5) obtain readme pz s3 where
    ph: "fetch_phase env v ?s0 = Inr ((readme, pz), s3)"
    by (cases "fetch_phase env v ?s0") (auto simp: assembly_starts_def)
  let ?body = "assemble env v (PACKAGE_METADATA_MSG v readme)"
  from ph have starts: "assembly_starts env v ?s0 = iteration_starts ?body pz s3"
    by (simp add: assembly_starts_def)
  from ph obtain s5 s13 where
    l5: "length (trace s5) = length (trace ?s0) + 5"
    and d5: "downloads_to ?Z (trace s5) = downloads_to ?Z (trace ?s0)"
    and fl: "fetch_loop env v PY_PLATFORM_TF_ARCH [] s5 = Inr (pz, s13)"
    and f3: "files s3 = files s13" and t3: "trace s3 = trace s13 @ [(Shasum (terraform_sha256 v), True)]"
    by (rule fetch_phase_Inr)
  from fetch_loop_Inr [OF fl] have pz: "pz = ?F"
    and t13: "trace s13 = trace s5 @ drop (length (trace s5)) (trace s13)"
    by simp_all
  from fetch_loop_same_architecture [OF assms(1-3) fl] have
    path: "terraform_zip v a = [''build'', ''terraform_'' @ TERRAFORM_VERSION v @ ''_linux_arm64.zip'']"
    and mp: "map_of pz p = Some ?Z" and mq: "map_of pz q = Some ?Z"
    and dl: "downloads_to ?Z (drop (length (trace s5)) (trace s13)) = [(?U, True), (?U, True)]"
    and rb: "read_bytes (files s13) ?Z = Some (snd (remote env (length (trace s5) + 5) ?U))"
    unfolding a by blast+
  have d13: "downloads_to ?Z (trace s13) = [(?U, True), (?U, True)]"
    by (subst t13) (simp add: d5 dl initial_state_def)
  then have d3: "downloads_to ?Z (trace s3) = [(?U, True), (?U, True)]"
    by (simp add: t3 downloads_to_def)
  from l5 rb f3 have r3: "read_bytes (files s3) ?Z = Some (snd (remote env 10 ?U))"
    by (simp add: initial_state_def)
  define I where "I = (\<lambda>t :: state. lookup (files t) ?Z = lookup (files s3) ?Z
                          \<and> downloads_to ?Z (trace t) = downloads_to ?Z (trace s3))"
  have "(platform, archive) \<in> set pz \<and> I t"
  proof (rule iteration_starts_inv [where body = ?body and s = s3])
    show "I s3" by (simp add: I_def)
    show "((platform, archive), t) \<in> set (iteration_starts ?body pz s3)"
      using assms(5) starts by simp
  next
    fix x t1 u t2
    assume x: "x \<in> set pz" and i: "I t1" and r: "?body x t1 = Inr (u, t2)"
    from fetched_item [of x v] x pz obtain a' where
      "(fst x, a') \<in> set PY_PLATFORM_TF_ARCH" "snd x = terraform_zip v a'"
      by auto
    then have a': "a' \<in> snd ` set PY_PLATFORM_TF_ARCH" and xe: "x = (fst x, terraform_zip v a')"
      by (force, cases x, simp)
    from r xe have "?body (fst x, terraform_zip v a') t1 = Inr (u, t2)" by simp
    from assemble_keeps_archive [OF a' this] i show "I t2" by (simp add: I_def)
  qed
  then have mem: "(platform, archive) \<in> set pz" and it: "I t" by simp_all
  from fetched_item [of "(platform, archive)" v] mem pz
  have "map_of pz platform = Some archive" by simp
  with mp mq assms(6) have ar: "archive = ?Z" by auto
  from it d3 have dt: "downloads_to ?Z (trace t) = [(?U, True), (?U, True)]" by (simp add: I_def)
  from it r3 have rt: "read_bytes (files t) ?Z = Some (snd (remote env 10 ?U))"
    by (simp add: I_def read_bytes_def)
  have fin: "final_state (main env) = final_state (for_each ?body pz s3)"
    using assms(4) ph by (simp add: main_def script_phases final_state_bind)
  from assms(5) starts have "((platform, archive), t) \<in> set (iteration_starts ?body pz s3)"
    by simp
  from iteration_starts_trace [where body = ?body, OF steps_weaken_assemble this]
  obtain rest1 where
    r1: "trace (final_state (for_each ?body pz s3)) = trace (final_state (?body (platform, archive) t)) @ rest1"
    by (elim exE)
  have tr: "\<exists>rest. trace (final_state (main env)) = trace t @ rest
          \<and> (rest = [(Mkdir (wheel_tree v platform), False)]
             \<or> (\<exists>ok rest'. rest = (Mkdir (wheel_tree v platform), True)
                                   # (Unpack archive (with_suffix_empty archive), ok) # rest'))"
  proof -
    from assemble_starts_with_unpack [of env v "PACKAGE_METADATA_MSG v readme" platform archive t]
    obtain rest where
      r: "trace (final_state (?body (platform, archive) t)) = trace t @ rest"
      and c: "rest = [(Mkdir (wheel_tree v platform), False)]
             \<or> (\<exists>ok rest'. rest = (Mkdir (wheel_tree v platform), True)
                                   # (Unpack archive (with_suffix_empty archive), ok) # rest')"
      by blast
    from fin r1 r have m: "trace (final_state (main env)) = trace t @ rest @ rest1" by simp
    from c show ?thesis
    proof
      assume f: "rest = [(Mkdir (wheel_tree v platform), False)]"
      with m have "trace (final_state (main env))
                   = trace t @ (Mkdir (wheel_tree v platform), False) # rest1"
        by simp
      from main_failed_last [OF this] have "rest1 = []" .
      with m f show ?thesis by simp
    next
      assume "\<exists>ok rest'. rest = (Mkdir (wheel_tree v platform), True)
                                   # (Unpack archive (with_suffix_empty archive), ok) # rest'"
      then obtain ok rest' where "rest = (Mkdir (wheel_tree v platform), True)
                                   # (Unpack archive (with_suffix_empty archive), ok) # rest'"
        by blast
      with m have "trace (final_state (main env)) = trace t @ ((Mkdir (wheel_tree v platform), True)
                       # (Unpack archive (with_suffix_empty archive), ok) # (rest' @ rest1))"
        by simp
      then show ?thesis by blast
    qed
  qed
  have both: "\<exists>t1 t2. ((p, ?Z), t1) \<in> set (assembly_starts env v ?s0)
                    \<and> ((q, ?Z), t2) \<in> set (assembly_starts env v ?s0)"
    if "exit_status (main env) = 0"
  proof -
    from that assms(4) obtain r where "script env v ?s0 = Inr r"
      by (cases "script env v ?s0") (auto simp: main_def exit_status_def)
    with ph have "for_each ?body pz s3 = Inr r"
      by (simp add: script_phases bind_prog_def)
    from iteration_starts_all [OF this] have "fst ` set (iteration_starts ?body pz s3) = set pz"
      by (metis set_map)
    moreover from mp mq have "(p, ?Z) \<in> set pz" "(q, ?Z) \<in> set pz"
      by (auto dest: map_of_SomeD)
    ultimately have "(p, ?Z) \<in> fst ` set (iteration_starts ?body pz s3)"
      "(q, ?Z) \<in> fst ` set (iteration_starts ?body pz s3)"
      by simp_all
    then obtain e1 e2 where
      e: "e1 \<in> set (iteration_starts ?body pz s3)" "e2 \<in> set (iteration_starts ?body pz s3)"
      and f: "fst e1 = (p, ?Z)" "fst e2 = (q, ?Z)"
      by (elim imageE) simp
    from f have "((p, ?Z), snd e1) = e1" "((q, ?Z), snd e2) = e2"
      by (metis prod.collapse)+
    with e have "((p, ?Z), snd e1) \<in> set (iteration_starts ?body pz s3)"
      "((q, ?Z), snd e2) \<in> set (iteration_starts ?body pz s3)"
      by simp_all
    then show ?thesis unfolding starts by blast
  qed
  from a path ar dt rt tr both show ?thesis by simp
qed























section \<open>A run that fails at the first archive\<close>

lemma broken_archive_trace:
  "trace (final_state (main broken_archive_env)) =
   [(ReadText [''README.md''], True), (Mkdir [''build''], True),
    (Wget ''https://releases.hashicorp.com/terraform/1.5.7/terraform_1.5.7_SHA256SUMS''
       [''build'', ''terraform_1.5.7_SHA256SUMS''], True),
    (Wget ''https://releases.hashicorp.com/terraform/1.5.7/terraform_1.5.7_SHA256SUMS.sig''
       [''build'', ''terraform_1.5.7_SHA256SUMS.sig''], True),
    (Gpg [''hashicorp.gpg''] [''build'', ''terraform_1.5.7_SHA256SUMS.sig'']
       [''build'', ''terraform_1.5.7_SHA256SUMS''], True),
    (Wget ''https://releases.hashicorp.com/terraform/1.5.7/terraform_1.5.7_linux_amd64.zip''
       [''build'', ''terraform_1.5.7_linux_amd64.zip''], True),
    (Wget ''https://releases.hashicorp.com/terraform/1.5.7/terraform_1.5.7_linux_386.zip''
       [''build'', ''terraform_1.5.7_linux_386.zip''], True),
    (Wget ''https://releases.hashicorp.com/terraform/1.5.7/terraform_1.5.7_linux_arm64.zip''
       [''build'', ''terraform_1.5.7_linux_arm64.zip''], True),
    (Wget ''https://releases.hashicorp.com/terraform/1.5.7/terraform_1.5.7_linux_arm.zip''
       [''build'', ''terraform_1.5.7_linux_arm.zip''], True),
    (Wget ''https://releases.hashicorp.com/terraform/1.5.7/terraform_1.5.7_darwin_amd64.zip''
       [''build'', ''terraform_1.5.7_darwin_amd64.zip''], True),
    (Wget ''https://releases.hashicorp.com/terraform/1.5.7/terraform_1.5.7_linux_arm64.zip''
       [''build'', ''terraform_1.5.7_linux_arm64.zip''], True),
    (Wget ''https://releases.hashicorp.com/terraform/1.5.7/terraform_1.5.7_windows_amd64.zip''
       [''build'', ''terraform_1.5.7_windows_amd64.zip''], True),
    (Wget ''https://releases.hashicorp.com/terraform/1.5.7/terraform_1.5.7_windows_386.zip''
       [''build'', ''terraform_1.5.7_windows_386.zip''], True),
    (Shasum [''build'', ''terraform_1.5.7_SHA256SUMS''], True),
    (Mkdir [''build'', ''terraform_binary_wheel-1.5.7.rc0-py2.py3-none-manylinux_2_5_x86_64.musllinux_1_1_x86_64''], True),
    (Unpack [''build'', ''terraform_1.5.7_linux_amd64.zip'']
       [''build'', ''terraform_1.5.7_linux_amd64''], False)]"
  by code_simp

lemma broken_archive_status: "exit_status (main broken_archive_env) = 1"
  by code_simp

theorem signature_then_checksums_then_unpack_witness:
  "(\<exists>k g. (Gpg k g [''build'', ''terraform_1.5.7_SHA256SUMS''], True)
            \<in> set (take 13 (trace (final_state (main broken_archive_env)))))
   \<and> (\<exists>m. (Shasum m, True) \<in> set (take 15 (trace (final_state (main broken_archive_env)))))"
proof -
  let ?tr = "trace (final_state (main broken_archive_env))"
  have a: "?tr = take 13 ?tr @ (Shasum [''build'', ''terraform_1.5.7_SHA256SUMS''], True) # drop 14 ?tr"
    by (simp add: broken_archive_trace)
  have b: "?tr = take 15 ?tr @ (Unpack [''build'', ''terraform_1.5.7_linux_amd64.zip'']
                                  [''build'', ''terraform_1.5.7_linux_amd64''], False) # drop 16 ?tr"
    by (simp add: broken_archive_trace)
  from signature_then_checksums_then_unpack [of broken_archive_env] a b show ?thesis
    by blast
qed

theorem failure_aborts_run_witness:
  "exit_status (main broken_archive_env) = 1
   \<and> drop 16 (trace (final_state (main broken_archive_env))) = []
   \<and> list_all snd (take 15 (trace (final_state (main broken_archive_env))))
   \<and> (\<exists>xs a. trace (final_state (main broken_archive_env)) = xs @ [(a, False)])"
proof -
  let ?tr = "trace (final_state (main broken_archive_env))"
  have b: "?tr = take 15 ?tr @ (Unpack [''build'', ''terraform_1.5.7_linux_amd64.zip'']
                                  [''build'', ''terraform_1.5.7_linux_amd64''], False) # drop 16 ?tr"
    by (simp add: broken_archive_trace)
  have p: "parse (GIT_TAG (environ_GIT_TAG broken_archive_env)) \<noteq> None" by code_simp
  from failure_aborts_run [of broken_archive_env] b p broken_archive_status show ?thesis
    by (metis zero_neq_one)
qed

lemma single_wheel_event:
  "filter is_wheel_event (trace (final_state (main single_wheel_env))) =
   [(ZipWrite
      [''build'', ''terraform_binary_wheel-1.5.7.rc0-py2.py3-none-manylinux_2_5_x86_64.musllinux_1_1_x86_64.whl'']
      [(''terraform_binary_wheel-1.5.7.rc0.data/scripts/terraform'', ''ELF''),
       (''terraform_binary_wheel-1.5.7.rc0.dist-info/LICENSE'', ''BSD''),
       (''terraform_binary_wheel-1.5.7.rc0.dist-info/METADATA'', ''M''),
       (''terraform_binary_wheel-1.5.7.rc0.dist-info/WHEEL'', ''M''),
       (''terraform_binary_wheel-1.5.7.rc0.dist-info/RECORD'',
        concat [''terraform_binary_wheel-1.5.7.rc0.data/scripts/terraform,sha256=aA,3'' @ [CHR 0x0A],
                ''terraform_binary_wheel-1.5.7.rc0.dist-info/LICENSE,sha256=aA,3'' @ [CHR 0x0A],
                ''terraform_binary_wheel-1.5.7.rc0.dist-info/METADATA,sha256=aA,1'' @ [CHR 0x0A],
                ''terraform_binary_wheel-1.5.7.rc0.dist-info/WHEEL,sha256=aA,1'' @ [CHR 0x0A],
                ''terraform_binary_wheel-1.5.7.rc0.dist-info/RECORD,,'' @ [CHR 0x0A]])],
     True)]"
  by code_simp

theorem wheel_archive_and_record_witness:
  "keys_below BUILD_DIR (initial_files single_wheel_env) = []
   \<and> glob_order single_wheel_env = (\<lambda>ps. ps)
   \<and> (\<exists>w ms. (ZipWrite w ms, True) \<in> set (trace (final_state (main single_wheel_env)))
        \<and> length ms = 5
        \<and> (\<exists>v platform. parse (GIT_TAG (environ_GIT_TAG single_wheel_env)) = Some v
              \<and> platform \<in> fst ` set PY_PLATFORM_TF_ARCH \<and> w = wheel_file v platform))"
proof -
  have f: "keys_below BUILD_DIR (initial_files single_wheel_env) = []" by code_simp
  have g: "glob_order single_wheel_env = (\<lambda>ps. ps)" by (simp add: single_wheel_env_def)
  from single_wheel_event obtain w ms where
    "(ZipWrite w ms, True) \<in> set (filter is_wheel_event (trace (final_state (main single_wheel_env))))"
    by (metis list.set_intros(1))
  then have e: "(ZipWrite w ms, True) \<in> set (trace (final_state (main single_wheel_env)))" by simp
  from wheel_archive_and_record [OF f _ e] g f e show ?thesis by auto
qed

lemma shared_archive_items:
  "map fst (assembly_starts shared_archive_env default_version (initial_state shared_archive_env)) =
   [(''manylinux_2_5_x86_64.musllinux_1_1_x86_64'', [''build'', ''terraform_1.5.7_linux_amd64.zip'']),
    (''manylinux_2_5_i686.musllinux_1_1_i686'', [''build'', ''terraform_1.5.7_linux_386.zip'']),
    (''manylinux_2_5_aarch64.musllinux_1_1_aarch64'', [''build'', ''terraform_1.5.7_linux_arm64.zip''])]"
  by code_simp

theorem same_architecture_shares_archive_witness:
  "map_of PY_PLATFORM_TF_ARCH ''manylinux_2_5_aarch64.musllinux_1_1_aarch64'' = Some ''linux_arm64''
   \<and> map_of PY_PLATFORM_TF_ARCH ''macosx_11_0_arm64'' = Some ''linux_arm64''
   \<and> parse (GIT_TAG (environ_GIT_TAG shared_archive_env)) = Some default_version
   \<and> (\<exists>t. ((''manylinux_2_5_aarch64.musllinux_1_1_aarch64'', [''build'', ''terraform_1.5.7_linux_arm64.zip'']), t)
              \<in> set (assembly_starts shared_archive_env default_version (initial_state shared_archive_env))
          \<and> read_bytes (files t) [''build'', ''terraform_1.5.7_linux_arm64.zip''] = Some ''10'')"
proof -
  let ?p = "''manylinux_2_5_aarch64.musllinux_1_1_aarch64''"
  let ?Z = "[''build'', ''terraform_1.5.7_linux_arm64.zip'']"
  let ?starts = "assembly_starts shared_archive_env default_version (initial_state shared_archive_env)"
  have p: "map_of PY_PLATFORM_TF_ARCH ?p = Some ''linux_arm64''"
    by (simp add: PY_PLATFORM_TF_ARCH_def)
  have q: "map_of PY_PLATFORM_TF_ARCH ''macosx_11_0_arm64'' = Some ''linux_arm64''"
    by (simp add: PY_PLATFORM_TF_ARCH_def)
  have n: "?p \<noteq> ''macosx_11_0_arm64''" by simp
  have v: "parse (GIT_TAG (environ_GIT_TAG shared_archive_env)) = Some default_version"
    by code_simp
  have z: "terraform_zip default_version ''linux_arm64'' = ?Z" by code_simp
  have c: "snd (remote shared_archive_env 10 (terraform_zip_url default_version ''linux_arm64'')) = ''10''"
    by code_simp
  have "(?p, ?Z) \<in> set (map fst ?starts)" unfolding shared_archive_items by simp
  then obtain e where e: "e \<in> set ?starts" "fst e = (?p, ?Z)" by auto
  then have "((?p, ?Z), snd e) = e" by (metis prod.collapse)
  with e have m: "((?p, ?Z), snd e) \<in> set ?starts" by simp
  from same_architecture_shares_archive [OF p q n v m] have
    "read_bytes (files (snd e)) ?Z = Some ''10''"
    unfolding z c by simp
  with p q v m show ?thesis by blast
qed



end
